theory Spec2Isabelle
  imports Main
begin

section \<open>JavaScript values\<close>

text \<open>
  The handler \<open>getTaitungWeather\<close> of \<open>src/server.js\<close> reads an upstream JSON document
  through untyped property accesses, so the document is modelled as an untyped value and
  every access as the operation JavaScript performs, with its \<open>TypeError\<close> written out.

  A string is the list of its UTF-16 code units, which is what \<open>===\<close>, \<open>+\<close>, \<open>.length\<close>
  and indexing of a JavaScript string work on. An object is the list of its own
  properties, each key once, as the parser builds it (of a key that the JSON text
  repeats it keeps the last value); should a list repeat a key, its first pair is the
  property.

  A number \<open>Num m e\<close> is the decimal \<open>m * 10 ^ e\<close> as the document writes it. JavaScript
  holds the double nearest to that decimal, so every operation on a number below says
  what it does to that double, or is left out (\<open>Unmodelled\<close>, see below) for the decimals
  for which the model does not determine it.
\<close>

type_synonym jstr = "nat list"

definition ascii :: "string \<Rightarrow> jstr" where
  "ascii s = map of_char s"

datatype jsval =
    Undefined
  | Null
  | Bool bool
  | Num int int
  | Str jstr
  | Arr "jsval list"
  | Obj "(jstr \<times> jsval) list"

text \<open>
  The double nearest to \<open>m * 10 ^ e\<close> is zero when the decimal is at most \<open>2 ^ -1075\<close> in
  magnitude, half the least positive double.
\<close>

definition rounds_to_zero :: "int \<Rightarrow> int \<Rightarrow> bool" where
  "rounds_to_zero m e \<longleftrightarrow> m = 0 \<or> (e < 0 \<and> \<bar>m\<bar> * 2 ^ 1075 \<le> 10 ^ nat (- e))"

text \<open>ToBoolean, as \<open>!x\<close>, \<open>x || y\<close>, \<open>x && y\<close> and \<open>if (x)\<close> apply it.\<close>

fun truthy :: "jsval \<Rightarrow> bool" where
  "truthy Undefined = False"
| "truthy Null = False"
| "truthy (Bool b) = b"
| "truthy (Num m e) = (\<not> rounds_to_zero m e)"
| "truthy (Str s) = (s \<noteq> [])"
| "truthy (Arr xs) = True"
| "truthy (Obj kvs) = True"

text \<open>\<open>a || b\<close> on values.\<close>

definition or_else :: "jsval \<Rightarrow> jsval \<Rightarrow> jsval" where
  "or_else a b = (if truthy a then a else b)"

subsection \<open>Printing a number\<close>

fun digits :: "nat \<Rightarrow> jstr" where
  "digits n = (if n < 10 then [48 + n] else digits (n div 10) @ [48 + n mod 10])"

declare digits.simps [simp del]

text \<open>
  \<open>Number::toString\<close> of the language specification prints a double from the shortest
  decimal that denotes it: its digits \<open>s\<close> without trailing zeros, their number \<open>k\<close>, and
  the position \<open>n\<close> of the decimal point, so that the value is \<open>0.s * 10 ^ n\<close>.
\<close>

definition significand :: "int \<Rightarrow> jstr" where
  "significand m = rev (dropWhile (\<lambda>c. c = 48) (rev (digits (nat \<bar>m\<bar>))))"

definition point :: "int \<Rightarrow> int \<Rightarrow> int" where
  "point m e = int (length (digits (nat \<bar>m\<bar>))) + e"

text \<open>
  The decimals that are the shortest decimal of the double nearest to them: zero, an
  integer of magnitude at most \<open>2 ^ 53\<close> (it is a double), and a decimal of at most 15
  significant digits well inside the range of normal doubles (two such decimals never
  share a double). For these the printed digits are the written ones. Of any other
  decimal the model does not say how it prints or compares.
\<close>

definition modelled_number :: "int \<Rightarrow> int \<Rightarrow> bool" where
  "modelled_number m e \<longleftrightarrow>
     m = 0 \<or> (0 \<le> e \<and> \<bar>m\<bar> * 10 ^ nat e \<le> 2 ^ 53) \<or>
     (length (significand m) \<le> 15 \<and> - 300 \<le> point m e \<and> point m e \<le> 300)"

text \<open>
  The cases of \<open>Number::toString\<close>: plain digits with zeros appended, digits with a
  decimal point inside, \<open>0.\<close> with zeros before the digits, and the exponent form when
  \<open>n\<close> is above 21 or below -5.
\<close>

definition show_number :: "int \<Rightarrow> int \<Rightarrow> jstr" where
  "show_number m e =
     (if m = 0 then [48]
      else
        let s = significand m; k = int (length s); n = point m e;
            body =
              (if k \<le> n \<and> n \<le> 21 then s @ replicate (nat (n - k)) 48
               else if 0 < n \<and> n \<le> 21 then take (nat n) s @ 46 # drop (nat n) s
               else if - 6 < n \<and> n \<le> 0 then 48 # 46 # replicate (nat (- n)) 48 @ s
               else
                 (if k = 1 then s else take 1 s @ 46 # drop 1 s) @
                 101 # (if n - 1 < 0 then 45 else 43) # digits (nat \<bar>n - 1\<bar>))
        in if m < 0 then 45 # body else body)"

fun join_comma :: "jstr list \<Rightarrow> jstr" where
  "join_comma [] = []"
| "join_comma [s] = s"
| "join_comma (s # t # ss) = s @ 44 # join_comma (t # ss)"

section \<open>Responses, exceptions and computations\<close>

text \<open>The object literal \<open>forecast\<close> of the loop body and the object \<open>weatherData\<close>.\<close>

record forecast =
  startTime :: jsval
  endTime :: jsval
  weather :: jsval
  rain :: jsval
  minTemp :: jsval
  maxTemp :: jsval
  comfort :: jsval
  windSpeed :: jsval

record weather_data =
  city :: jsval
  updateTime :: jsval
  forecasts :: "forecast list"

text \<open>
  The JSON bodies the handler sends: \<open>{error, message}\<close>, \<open>{error, message, details}\<close>
  and \<open>{success: true, data}\<close>. A response is a status code and a body.
\<close>

datatype body =
    ErrorJson jstr jstr
  | UpstreamErrorJson jstr jsval jsval
  | SuccessJson weather_data

type_synonym response = "nat \<times> body"

text \<open>
  What the \<open>try\<close> block can throw: a \<open>TypeError\<close> of the language, the \<open>Error\<close> of
  line 81 with its message, and the rejection of \<open>axios.get\<close>, which carries
  \<open>error.response\<close> (status and data) when the upstream answered.
\<close>

datatype exn =
    TypeError
  | Error jstr
  | AxiosError "(nat \<times> jsval) option"

text \<open>
  A computation yields a value, returns from the handler with a response sent
  (\<open>return res.status(...).json(...)\<close>), or throws. \<open>Unmodelled\<close> marks the behaviour
  left out: printing or comparing a number that is not a \<^const>\<open>modelled_number\<close>, and a
  loop bound that JavaScript obtains by converting a string or an array to a number.
\<close>

datatype 'a comp =
    Val 'a
  | Ret response
  | Thrown exn
  | Unmodelled

definition andThen :: "'a comp \<Rightarrow> ('a \<Rightarrow> 'b comp) \<Rightarrow> 'b comp" where
  "andThen m f =
     (case m of Val x \<Rightarrow> f x | Ret r \<Rightarrow> Ret r | Thrown e \<Rightarrow> Thrown e
      | Unmodelled \<Rightarrow> Unmodelled)"

subsection \<open>Conversion to a string\<close>

text \<open>The results of a list of computations, the first failure if there is one.\<close>

fun collect :: "'a comp list \<Rightarrow> 'a list comp" where
  "collect [] = Val []"
| "collect (m # ms) = andThen m (\<lambda>x. andThen (collect ms) (\<lambda>xs. Val (x # xs)))"

text \<open>
  ToString of ToPrimitive of a value, as \<open>value + "%"\<close> computes it. An array is
  converted by \<open>Array.prototype.join\<close>: its elements in turn, \<open>null\<close> and \<open>undefined\<close>
  as the empty string, joined by commas. An object is converted by the methods
  \<open>valueOf\<close> and \<open>toString\<close>: the inherited \<open>valueOf\<close> returns the object, and an own
  \<open>valueOf\<close> of a document is not callable, so both are passed over; the inherited
  \<open>toString\<close> gives \<open>[object Object]\<close>, and with an own property \<open>toString\<close>, which is
  not callable either, no method is left and the conversion throws a \<open>TypeError\<close>.
\<close>

fun to_string :: "jsval \<Rightarrow> jstr comp" where
  "to_string Undefined = Val (ascii ''undefined'')"
| "to_string Null = Val (ascii ''null'')"
| "to_string (Bool b) = Val (if b then ascii ''true'' else ascii ''false'')"
| "to_string (Num m e) = (if modelled_number m e then Val (show_number m e) else Unmodelled)"
| "to_string (Str s) = Val s"
| "to_string (Arr xs) =
     andThen (collect (map (\<lambda>v. if v = Undefined \<or> v = Null then Val [] else to_string v) xs))
       (\<lambda>ss. Val (join_comma ss))"
| "to_string (Obj kvs) =
     (if map_of kvs (ascii ''toString'') = None then Val (ascii ''[object Object]'')
      else Thrown TypeError)"

text \<open>\<open>value + suffix\<close> for a string \<open>suffix\<close>.\<close>

definition add_str :: "jsval \<Rightarrow> jstr \<Rightarrow> jsval comp" where
  "add_str v suffix = andThen (to_string v) (\<lambda>s. Val (Str (s @ suffix)))"

section \<open>Property access\<close>

definition own :: "(jstr \<times> jsval) list \<Rightarrow> jstr \<Rightarrow> jsval" where
  "own kvs k = (case map_of kvs k of None \<Rightarrow> Undefined | Some v \<Rightarrow> v)"

text \<open>
  \<open>v.k\<close> for the property names the handler reads (none of them is inherited from
  \<open>Object.prototype\<close>, and of those on \<open>Array.prototype\<close> and \<open>String.prototype\<close>
  only \<open>length\<close> is read as a value): a \<open>TypeError\<close> on \<open>undefined\<close> and \<open>null\<close>,
  \<open>undefined\<close> for a property that is not there.
\<close>

fun get_prop :: "jsval \<Rightarrow> jstr \<Rightarrow> jsval comp" where
  "get_prop Undefined k = Thrown TypeError"
| "get_prop Null k = Thrown TypeError"
| "get_prop (Obj kvs) k = Val (own kvs k)"
| "get_prop (Arr xs) k =
     Val (if k = ascii ''length'' then Num (int (length xs)) 0 else Undefined)"
| "get_prop (Str s) k =
     Val (if k = ascii ''length'' then Num (int (length s)) 0 else Undefined)"
| "get_prop (Bool b) k = Val Undefined"
| "get_prop (Num m e) k = Val Undefined"

text \<open>\<open>v[i]\<close> for a non-negative integer \<open>i\<close>; an object is indexed by the decimal key.\<close>

fun get_index :: "jsval \<Rightarrow> nat \<Rightarrow> jsval comp" where
  "get_index Undefined i = Thrown TypeError"
| "get_index Null i = Thrown TypeError"
| "get_index (Arr xs) i = Val (if i < length xs then xs ! i else Undefined)"
| "get_index (Obj kvs) i = Val (own kvs (digits i))"
| "get_index (Str s) i = Val (if i < length s then Str [s ! i] else Undefined)"
| "get_index (Bool b) i = Val Undefined"
| "get_index (Num m e) i = Val Undefined"

text \<open>
  \<open>xs.find(p)\<close> and \<open>xs.forEach(f)\<close>: only an array has these methods (a property of
  that name in a JSON object is not a function), so the call on anything else throws.
  The callback may throw, which ends the iteration.
\<close>

primrec find_first :: "(jsval \<Rightarrow> bool comp) \<Rightarrow> jsval list \<Rightarrow> jsval comp" where
  "find_first p [] = Val Undefined"
| "find_first p (x # xs) = andThen (p x) (\<lambda>b. if b then Val x else find_first p xs)"

definition find_js :: "jsval \<Rightarrow> (jsval \<Rightarrow> bool comp) \<Rightarrow> jsval comp" where
  "find_js v p = (case v of Arr xs \<Rightarrow> find_first p xs | _ \<Rightarrow> Thrown TypeError)"

primrec for_each :: "(jsval \<Rightarrow> 's \<Rightarrow> 's comp) \<Rightarrow> jsval list \<Rightarrow> 's \<Rightarrow> 's comp" where
  "for_each f [] s = Val s"
| "for_each f (x # xs) s = andThen (f x s) (for_each f xs)"

definition forEach_js :: "jsval \<Rightarrow> (jsval \<Rightarrow> 's \<Rightarrow> 's comp) \<Rightarrow> 's \<Rightarrow> 's comp" where
  "forEach_js v f s = (case v of Arr xs \<Rightarrow> for_each f xs s | _ \<Rightarrow> Thrown TypeError)"

text \<open>
  \<open>i < v\<close> for the loop counter \<open>i\<close>: \<open>v\<close> is converted to a number. \<open>undefined\<close>
  becomes \<open>NaN\<close>, with which every comparison is false. An object is first converted to
  a primitive as above, which throws when it has an own property \<open>toString\<close> and gives
  \<open>[object Object]\<close>, hence \<open>NaN\<close>, otherwise. For a number the comparison of the
  counter with the decimal is that of the doubles when the number is a
  \<^const>\<open>modelled_number\<close> and the counter is below \<open>10 ^ 15\<close>.
\<close>

definition less_decimal :: "nat \<Rightarrow> int \<Rightarrow> int \<Rightarrow> bool" where
  "less_decimal i m e =
     (if 0 \<le> e then int i < m * 10 ^ nat e else int i * 10 ^ nat (- e) < m)"

fun js_less :: "nat \<Rightarrow> jsval \<Rightarrow> bool comp" where
  "js_less i (Num m e) =
     (if modelled_number m e \<and> i < 10 ^ 15 then Val (less_decimal i m e) else Unmodelled)"
| "js_less i (Bool b) = Val (int i < (if b then 1 else 0))"
| "js_less i Null = Val (int i < 0)"
| "js_less i Undefined = Val False"
| "js_less i (Obj kvs) =
     (if map_of kvs (ascii ''toString'') = None then Val False else Thrown TypeError)"
| "js_less i (Str s) = Unmodelled"
| "js_less i (Arr xs) = Unmodelled"

text \<open>
  The loop \<open>for (let i = 0; i < timeCount; i++) { ...; forecasts.push(forecast) }\<close>:
  the comparison is made before every round, the body may throw, and the list grows at
  its end.
\<close>

text \<open>The least counter that is not below the bound: the number of rounds.\<close>

definition iterations :: "jsval \<Rightarrow> nat" where
  "iterations v =
     (case v of
        Num m e \<Rightarrow> (if 0 \<le> e then nat (m * 10 ^ nat e) else nat (- ((- m) div 10 ^ nat (- e))))
      | Bool b \<Rightarrow> (if b then 1 else 0)
      | _ \<Rightarrow> 0)"

function for_loop :: "(nat \<Rightarrow> 'a comp) \<Rightarrow> jsval \<Rightarrow> nat \<Rightarrow> 'a list \<Rightarrow> 'a list comp" where
  "for_loop body timeCount i acc =
     (case js_less i timeCount of
        Val b \<Rightarrow>
          (if b then andThen (body i) (\<lambda>x. for_loop body timeCount (Suc i) (acc @ [x]))
           else Val acc)
      | Ret r \<Rightarrow> Ret r
      | Thrown e \<Rightarrow> Thrown e
      | Unmodelled \<Rightarrow> Unmodelled)"
  by pat_completeness auto
termination
proof (relation "measure (\<lambda>(body, timeCount, i, acc). iterations timeCount - i)")
  fix body :: "nat \<Rightarrow> 'a comp" and timeCount i and acc :: "'a list" and b x
  assume less: "js_less i timeCount = Val b" and b
  have "i < iterations timeCount"
  proof (cases timeCount)
    case (Num m e)
    with less \<open>b\<close> have dec: "less_decimal i m e" by (simp split: if_splits)
    show ?thesis
    proof (cases "0 \<le> e")
      case True
      with dec Num show ?thesis by (simp add: iterations_def less_decimal_def)
    next
      case False
      let ?K = "(10::int) ^ nat (- e)"
      have K: "0 < ?K" by simp
      from dec False have lt: "int i * ?K < m" by (simp add: less_decimal_def)
      have "(- m) div ?K * ?K + (- m) mod ?K = - m" by (rule div_mult_mod_eq)
      moreover have "0 \<le> (- m) mod ?K" using K by simp
      ultimately have "m \<le> - ((- m) div ?K) * ?K" unfolding mult_minus_left by linarith
      with lt have "int i * ?K < - ((- m) div ?K) * ?K" by linarith
      with K have "int i < - ((- m) div ?K)" by (simp only: mult_less_cancel_right)
      with Num False show ?thesis by (simp add: iterations_def)
    qed
  qed (use less \<open>b\<close> in \<open>simp_all add: iterations_def split: if_splits\<close>)
  then show "((body, timeCount, Suc i, acc @ [x]), body, timeCount, i, acc)
      \<in> measure (\<lambda>(body, timeCount, i, acc). iterations timeCount - i)" by simp
qed simp

declare for_loop.simps [simp del]

section \<open>The handler\<close>

subsection \<open>String constants of the source\<close>

definition taitung_city :: jstr where
  "taitung_city = [0x81FA, 0x6771, 0x5E02]"

definition unknown_issue_time :: jstr where
  "unknown_issue_time = [0x672A, 0x77E5, 0x767C, 0x5E03, 0x6642, 0x9593]"

definition missing_wx :: jstr where
  "missing_wx = [0x7F3A, 0x5C11, 32, 87, 120, 32, 0x5929, 0x6C23, 0x8981, 0x7D20]"

definition config_error :: jstr where
  "config_error = [0x4F3A, 0x670D, 0x5668, 0x8A2D, 0x5B9A, 0x932F, 0x8AA4]"

definition config_message :: jstr where
  "config_message =
     [0x8ACB, 0x5728] @ ascii '' .env '' @ [0x6A94, 0x6848, 0x4E2D, 0x8A2D, 0x5B9A]
     @ ascii '' CWA_API_KEY''"

definition no_data :: jstr where
  "no_data = [0x67E5, 0x7121, 0x8CC7, 0x6599]"

definition no_county_message :: jstr where
  "no_county_message =
     [0x7121, 0x6CD5, 0x53D6, 0x5F97, 0x81FA, 0x6771, 0x7E23, 0x9109, 0x93AE, 0x5929,
      0x6C23, 0x8CC7, 0x6599]"

definition no_city_message :: jstr where
  "no_city_message =
     [0x7121, 0x6CD5, 0x53D6, 0x5F97, 0x81FA, 0x6771, 0x5E02, 0x5929, 0x6C23, 0x8CC7,
      0x6599]"

definition upstream_error :: jstr where
  "upstream_error = ascii ''CWA API '' @ [0x932F, 0x8AA4]"

definition no_weather_message :: jstr where
  "no_weather_message = [0x7121, 0x6CD5, 0x53D6, 0x5F97, 0x5929, 0x6C23, 0x8CC7, 0x6599]"

definition server_error :: jstr where
  "server_error = [0x4F3A, 0x670D, 0x5668, 0x932F, 0x8AA4]"

definition retry_message :: jstr where
  "retry_message =
     [0x7121, 0x6CD5, 0x53D6, 0x5F97, 0x5929, 0x6C23, 0x8CC7, 0x6599, 0xFF0C, 0x8ACB,
      0x7A0D, 0x5F8C, 0x518D, 0x8A66]"

definition percent :: jstr where
  "percent = ascii ''%''"

definition degrees_celsius :: jstr where
  "degrees_celsius = [0xB0, 67]"

definition dataset_url :: jstr where
  "dataset_url = ascii ''https://opendata.cwa.gov.tw/api/v1/rest/datastore/F-D0047-091''"

subsection \<open>The loop body, lines 87 to 138\<close>

text \<open>The callback \<open>x => x.k === s\<close> of the three \<open>find\<close> calls.\<close>

definition name_is :: "jstr \<Rightarrow> jstr \<Rightarrow> jsval \<Rightarrow> bool comp" where
  "name_is k s x = andThen (get_prop x k) (\<lambda>n. Val (n = Str s))"

text \<open>\<open>element.time[i]\<close>.\<close>

definition time_entry :: "jsval \<Rightarrow> nat \<Rightarrow> jsval comp" where
  "time_entry element i = andThen (get_prop element (ascii ''time'')) (\<lambda>t. get_index t i)"

text \<open>The object literal of lines 87 to 96.\<close>

definition new_forecast :: "jsval \<Rightarrow> nat \<Rightarrow> forecast comp" where
  "new_forecast wxElement i =
     andThen (time_entry wxElement i) (\<lambda>e1.
     andThen (get_prop e1 (ascii ''startTime'')) (\<lambda>start.
     andThen (time_entry wxElement i) (\<lambda>e2.
     andThen (get_prop e2 (ascii ''endTime'')) (\<lambda>finish.
     Val \<lparr>startTime = start, endTime = finish, weather = Str [], rain = Str [],
          minTemp = Str [], maxTemp = Str [], comfort = Str [], windSpeed = Str []\<rparr>))))"

text \<open>
  Lines 99 to 103 of the \<open>forEach\<close> callback: \<open>None\<close> when the callback returns at
  line 100, the value of \<open>timeEntry.parameter.parameterName\<close> otherwise.
\<close>

definition read_value :: "nat \<Rightarrow> jsval \<Rightarrow> jsval option comp" where
  "read_value i element =
     andThen (time_entry element i) (\<lambda>timeEntry.
     if \<not> truthy timeEntry then Val None
     else andThen (get_prop timeEntry (ascii ''parameter'')) (\<lambda>parameter.
       if \<not> truthy parameter then Val None
       else andThen (get_prop parameter (ascii ''parameterName'')) (\<lambda>v. Val (Some v))))"

text \<open>The \<open>switch\<close> of lines 105 to 123.\<close>

definition assign_field :: "jsval \<Rightarrow> jsval \<Rightarrow> forecast \<Rightarrow> forecast comp" where
  "assign_field name v fc =
     (if name = Str (ascii ''Wx'') then Val (fc\<lparr>weather := v\<rparr>)
      else if name = Str (ascii ''PoP6h'') then
        andThen (add_str v percent) (\<lambda>s. Val (fc\<lparr>rain := s\<rparr>))
      else if name = Str (ascii ''T'') then
        andThen (add_str v degrees_celsius) (\<lambda>s1.
        andThen (add_str v degrees_celsius) (\<lambda>s2.
        Val (fc\<lparr>minTemp := s1, maxTemp := s2\<rparr>)))
      else if name = Str (ascii ''CI'') then Val (fc\<lparr>comfort := v\<rparr>)
      else if name = Str (ascii ''Ws'') then Val (fc\<lparr>windSpeed := v\<rparr>)
      else Val fc)"

definition process_element :: "nat \<Rightarrow> jsval \<Rightarrow> forecast \<Rightarrow> forecast comp" where
  "process_element i element fc =
     andThen (read_value i element) (\<lambda>r.
     case r of
       None \<Rightarrow> Val fc
     | Some v \<Rightarrow>
         andThen (get_prop element (ascii ''elementName'')) (\<lambda>name.
         assign_field name v fc))"

text \<open>Lines 126 to 135: the fallback to \<open>PoP12h\<close> and to \<open>0%\<close>.\<close>

definition resolve_rain :: "jsval \<Rightarrow> nat \<Rightarrow> forecast \<Rightarrow> forecast comp" where
  "resolve_rain weatherElements i fc =
     (if \<not> truthy (rain fc) then
        andThen (find_js weatherElements (name_is (ascii ''elementName'') (ascii ''PoP12h'')))
          (\<lambda>pop12hElement.
        if \<not> truthy pop12hElement then Val (fc\<lparr>rain := Str (ascii ''0%'')\<rparr>)
        else andThen (time_entry pop12hElement i) (\<lambda>entry.
          if truthy entry then
            andThen (time_entry pop12hElement i) (\<lambda>entry'.
            andThen (get_prop entry' (ascii ''parameter'')) (\<lambda>parameter.
            andThen (get_prop parameter (ascii ''parameterName'')) (\<lambda>popValue.
            andThen (add_str popValue percent) (\<lambda>s.
            Val (fc\<lparr>rain := s\<rparr>)))))
          else Val (fc\<lparr>rain := Str (ascii ''0%'')\<rparr>)))
      else Val fc)"

definition forecast_at :: "jsval \<Rightarrow> jsval \<Rightarrow> nat \<Rightarrow> forecast comp" where
  "forecast_at weatherElements wxElement i =
     andThen (new_forecast wxElement i) (\<lambda>fc0.
     andThen (forEach_js weatherElements (process_element i) fc0) (\<lambda>fc1.
     resolve_rain weatherElements i fc1))"

subsection \<open>The \<open>try\<close> block after the upstream call, lines 47 to 144\<close>

text \<open>Lines 47 to 66: the township record, or the 404 response.\<close>

definition locate_township :: "jsval \<Rightarrow> jsval comp" where
  "locate_township data =
     andThen (get_prop data (ascii ''records'')) (\<lambda>records.
     andThen (get_prop records (ascii ''locations'')) (\<lambda>locations.
     andThen (get_index locations 0) (\<lambda>locationDataContainer.
     if \<not> truthy locationDataContainer then Ret (404, ErrorJson no_data no_county_message)
     else andThen (get_prop locationDataContainer (ascii ''location'')) (\<lambda>location.
       if \<not> truthy location then Ret (404, ErrorJson no_data no_county_message)
       else
         andThen (find_js location (name_is (ascii ''locationName'') taitung_city)) (\<lambda>found.
         andThen (if truthy found then Val found else get_index location 0)
           (\<lambda>taitungCityData.
         if \<not> truthy taitungCityData then Ret (404, ErrorJson no_data no_city_message)
         else Val taitungCityData))))))"

text \<open>Lines 69 to 144: the normalized response built from the township record.\<close>

definition normalize_township :: "jsval \<Rightarrow> jsval \<Rightarrow> response comp" where
  "normalize_township data taitungCityData =
     andThen (get_prop taitungCityData (ascii ''locationName'')) (\<lambda>name.
     andThen (get_prop data (ascii ''records'')) (\<lambda>records.
     andThen (get_prop records (ascii ''issueTime'')) (\<lambda>issueTime.
     andThen (get_prop taitungCityData (ascii ''weatherElement'')) (\<lambda>weatherElements.
     andThen (find_js weatherElements (name_is (ascii ''elementName'') (ascii ''Wx'')))
       (\<lambda>wxElement.
     if \<not> truthy wxElement then Thrown (Error missing_wx)
     else
       andThen (get_prop wxElement (ascii ''time'')) (\<lambda>t.
       andThen (get_prop t (ascii ''length'')) (\<lambda>timeCount.
       andThen (for_loop (forecast_at weatherElements wxElement) timeCount 0 []) (\<lambda>fs.
       Val (200, SuccessJson
         \<lparr>city = name, updateTime = or_else issueTime (Str unknown_issue_time),
          forecasts = fs\<rparr>)))))))))"

definition try_body :: "jsval \<Rightarrow> response comp" where
  "try_body data = andThen (locate_township data) (normalize_township data)"

subsection \<open>The request: configuration, the upstream call and the \<open>catch\<close> block\<close>

text \<open>
  The world of one request: what the upstream will answer to \<open>axios.get\<close> (a response
  with its parsed body, or a rejection with or without \<open>error.response\<close>), the outbound
  calls made so far (URL and query parameters) and the errors logged by \<open>console.error\<close>.
\<close>

datatype upstream_reply =
    Fulfilled jsval
  | Rejected "(nat \<times> jsval) option"

record world =
  upstream :: upstream_reply
  outbound :: "(jstr \<times> (jstr \<times> jstr) list) list"
  console :: "exn list"

definition axios_get :: "jstr \<Rightarrow> (jstr \<times> jstr) list \<Rightarrow> world \<Rightarrow> jsval comp \<times> world" where
  "axios_get url params w =
     ((case upstream w of Fulfilled d \<Rightarrow> Val d | Rejected r \<Rightarrow> Thrown (AxiosError r)),
      w\<lparr>outbound := outbound w @ [(url, params)]\<rparr>)"

text \<open>
  How a request ends: with a response, or with the handler's promise rejected by an
  exception thrown inside the \<open>catch\<close> block and no response sent.
\<close>

datatype outcome =
    Responded response
  | Uncaught exn
  | NotModelled

text \<open>Lines 145 to 162.\<close>

definition catch_block :: "exn \<Rightarrow> world \<Rightarrow> outcome \<times> world" where
  "catch_block e w =
     (let w' = w\<lparr>console := console w @ [e]\<rparr> in
      case e of
        AxiosError (Some (status, d)) \<Rightarrow>
          (case get_prop d (ascii ''message'') of
             Val m \<Rightarrow>
               (Responded (status,
                  UpstreamErrorJson upstream_error (or_else m (Str no_weather_message)) d), w')
           | Thrown e' \<Rightarrow> (Uncaught e', w')
           | Ret r \<Rightarrow> (Responded r, w')
           | Unmodelled \<Rightarrow> (NotModelled, w'))
      | _ \<Rightarrow> (Responded (500, ErrorJson server_error retry_message), w'))"

text \<open>
  The handler. \<open>CWA_API_KEY\<close> is \<open>process.env.CWA_API_KEY\<close>: a string, or \<open>undefined\<close>
  (\<open>None\<close>) when the variable is not set.
\<close>

definition getTaitungWeather :: "jstr option \<Rightarrow> world \<Rightarrow> outcome \<times> world" where
  "getTaitungWeather CWA_API_KEY w =
     (case CWA_API_KEY of
        None \<Rightarrow> (Responded (500, ErrorJson config_error config_message), w)
      | Some key \<Rightarrow>
          if key = [] then (Responded (500, ErrorJson config_error config_message), w)
          else
            (case axios_get dataset_url [(ascii ''Authorization'', key)] w of
               (r, w1) \<Rightarrow>
                 (case andThen r try_body of
                    Val resp \<Rightarrow> (Responded resp, w1)
                  | Ret resp \<Rightarrow> (Responded resp, w1)
                  | Thrown e \<Rightarrow> catch_block e w1
                  | Unmodelled \<Rightarrow> (NotModelled, w1))))"

section \<open>The handler on a heap\<close>

text \<open>
  The documents above are trees: a value of type \<^typ>\<open>jsval\<close> cannot be changed, and two
  occurrences of the same object cannot be told apart. To state that the handler does not
  change the document it is given, the \<open>try\<close> block is embedded a second time, over a
  heap: an object or an array is a reference to a cell, a property assignment and
  \<open>push\<close> replace the cell at an address, and an object or array literal allocates a new
  cell at the end of the heap.
\<close>

datatype hval =
    HUndefined
  | HNull
  | HBool bool
  | HNum int int
  | HStr jstr
  | HRef nat

datatype cell =
    ArrCell "hval list"
  | ObjCell "(jstr \<times> hval) list"

type_synonym heap = "cell list"

definition cell_at :: "heap \<Rightarrow> nat \<Rightarrow> cell option" where
  "cell_at h a = (if a < length h then Some (h ! a) else None)"

text \<open>
  The tree a value stands for in a heap, followed to a depth of \<open>n\<close> references. A
  reference to no cell, and a structure deeper than \<open>n\<close> (a cyclic one is deeper than
  every \<open>n\<close>), stand for no tree.
\<close>

fun tree_of :: "nat \<Rightarrow> heap \<Rightarrow> hval \<Rightarrow> jsval option" where
  "tree_of n h HUndefined = Some Undefined"
| "tree_of n h HNull = Some Null"
| "tree_of n h (HBool b) = Some (Bool b)"
| "tree_of n h (HNum m e) = Some (Num m e)"
| "tree_of n h (HStr s) = Some (Str s)"
| "tree_of 0 h (HRef a) = None"
| "tree_of (Suc n) h (HRef a) =
     (case cell_at h a of
        None \<Rightarrow> None
      | Some (ArrCell xs) \<Rightarrow> map_option Arr (those (map (tree_of n h) xs))
      | Some (ObjCell kvs) \<Rightarrow>
          map_option Obj (those (map (\<lambda>(k, x). map_option (Pair k) (tree_of n h x)) kvs)))"

fun h_truthy :: "hval \<Rightarrow> bool" where
  "h_truthy HUndefined = False"
| "h_truthy HNull = False"
| "h_truthy (HBool b) = b"
| "h_truthy (HNum m e) = (\<not> rounds_to_zero m e)"
| "h_truthy (HStr s) = (s \<noteq> [])"
| "h_truthy (HRef a) = True"

definition h_own :: "(jstr \<times> hval) list \<Rightarrow> jstr \<Rightarrow> hval" where
  "h_own kvs k = (case map_of kvs k of None \<Rightarrow> HUndefined | Some v \<Rightarrow> v)"

text \<open>
  Property and index access, as on trees. A reference to no cell does not occur in a heap
  the program built; the access is then \<^const>\<open>Unmodelled\<close>.
\<close>

fun h_get_prop :: "heap \<Rightarrow> hval \<Rightarrow> jstr \<Rightarrow> hval comp" where
  "h_get_prop h HUndefined k = Thrown TypeError"
| "h_get_prop h HNull k = Thrown TypeError"
| "h_get_prop h (HRef a) k =
     (case cell_at h a of
        None \<Rightarrow> Unmodelled
      | Some (ObjCell kvs) \<Rightarrow> Val (h_own kvs k)
      | Some (ArrCell xs) \<Rightarrow>
          Val (if k = ascii ''length'' then HNum (int (length xs)) 0 else HUndefined))"
| "h_get_prop h (HStr s) k =
     Val (if k = ascii ''length'' then HNum (int (length s)) 0 else HUndefined)"
| "h_get_prop h (HBool b) k = Val HUndefined"
| "h_get_prop h (HNum m e) k = Val HUndefined"

fun h_get_index :: "heap \<Rightarrow> hval \<Rightarrow> nat \<Rightarrow> hval comp" where
  "h_get_index h HUndefined i = Thrown TypeError"
| "h_get_index h HNull i = Thrown TypeError"
| "h_get_index h (HRef a) i =
     (case cell_at h a of
        None \<Rightarrow> Unmodelled
      | Some (ArrCell xs) \<Rightarrow> Val (if i < length xs then xs ! i else HUndefined)
      | Some (ObjCell kvs) \<Rightarrow> Val (h_own kvs (digits i)))"
| "h_get_index h (HStr s) i = Val (if i < length s then HStr [s ! i] else HUndefined)"
| "h_get_index h (HBool b) i = Val HUndefined"
| "h_get_index h (HNum m e) i = Val HUndefined"

text \<open>
  ToString of ToPrimitive of a value, which joins the elements of an array and so follows
  references, to a depth of \<open>n\<close>; a value deeper than that is not converted.
\<close>

fun h_to_string :: "nat \<Rightarrow> heap \<Rightarrow> hval \<Rightarrow> jstr comp" where
  "h_to_string n h HUndefined = Val (ascii ''undefined'')"
| "h_to_string n h HNull = Val (ascii ''null'')"
| "h_to_string n h (HBool b) = Val (if b then ascii ''true'' else ascii ''false'')"
| "h_to_string n h (HNum m e) =
     (if modelled_number m e then Val (show_number m e) else Unmodelled)"
| "h_to_string n h (HStr s) = Val s"
| "h_to_string 0 h (HRef a) = Unmodelled"
| "h_to_string (Suc n) h (HRef a) =
     (case cell_at h a of
        None \<Rightarrow> Unmodelled
      | Some (ObjCell kvs) \<Rightarrow>
          (if map_of kvs (ascii ''toString'') = None then Val (ascii ''[object Object]'')
           else Thrown TypeError)
      | Some (ArrCell xs) \<Rightarrow>
          andThen
            (collect (map (\<lambda>x. if x = HUndefined \<or> x = HNull then Val []
                               else h_to_string n h x) xs))
            (\<lambda>ss. Val (join_comma ss)))"

definition h_add_str :: "nat \<Rightarrow> heap \<Rightarrow> hval \<Rightarrow> jstr \<Rightarrow> hval comp" where
  "h_add_str depth h v suffix =
     andThen (h_to_string depth h v) (\<lambda>s. Val (HStr (s @ suffix)))"

definition h_name_is :: "heap \<Rightarrow> jstr \<Rightarrow> jstr \<Rightarrow> hval \<Rightarrow> bool comp" where
  "h_name_is h k s x = andThen (h_get_prop h x k) (\<lambda>n. Val (n = HStr s))"

primrec h_find_first :: "(hval \<Rightarrow> bool comp) \<Rightarrow> hval list \<Rightarrow> hval comp" where
  "h_find_first p [] = Val HUndefined"
| "h_find_first p (x # xs) = andThen (p x) (\<lambda>b. if b then Val x else h_find_first p xs)"

text \<open>The elements of the array a method is called on.\<close>

fun h_elements :: "heap \<Rightarrow> hval \<Rightarrow> hval list comp" where
  "h_elements h (HRef a) =
     (case cell_at h a of
        None \<Rightarrow> Unmodelled
      | Some (ArrCell xs) \<Rightarrow> Val xs
      | Some (ObjCell kvs) \<Rightarrow> Thrown TypeError)"
| "h_elements h v = Thrown TypeError"

definition h_find :: "heap \<Rightarrow> hval \<Rightarrow> (hval \<Rightarrow> bool comp) \<Rightarrow> hval comp" where
  "h_find h v p = andThen (h_elements h v) (h_find_first p)"

fun h_less :: "heap \<Rightarrow> nat \<Rightarrow> hval \<Rightarrow> bool comp" where
  "h_less h i (HNum m e) =
     (if modelled_number m e \<and> i < 10 ^ 15 then Val (less_decimal i m e) else Unmodelled)"
| "h_less h i (HBool b) = Val (int i < (if b then 1 else 0))"
| "h_less h i HNull = Val (int i < 0)"
| "h_less h i HUndefined = Val False"
| "h_less h i (HRef a) =
     (case cell_at h a of
        Some (ObjCell kvs) \<Rightarrow>
          (if map_of kvs (ascii ''toString'') = None then Val False else Thrown TypeError)
      | _ \<Rightarrow> Unmodelled)"
| "h_less h i (HStr s) = Unmodelled"

definition h_time_entry :: "heap \<Rightarrow> hval \<Rightarrow> nat \<Rightarrow> hval comp" where
  "h_time_entry h element i =
     andThen (h_get_prop h element (ascii ''time'')) (\<lambda>t. h_get_index h t i)"

definition h_read_value :: "heap \<Rightarrow> nat \<Rightarrow> hval \<Rightarrow> hval option comp" where
  "h_read_value h i element =
     andThen (h_time_entry h element i) (\<lambda>timeEntry.
     if \<not> h_truthy timeEntry then Val None
     else andThen (h_get_prop h timeEntry (ascii ''parameter'')) (\<lambda>parameter.
       if \<not> h_truthy parameter then Val None
       else andThen (h_get_prop h parameter (ascii ''parameterName'')) (\<lambda>v. Val (Some v))))"

subsection \<open>Computations that change the heap\<close>

text \<open>
  A computation that may change the heap returns its result and the heap it leaves, also
  when it throws or responds. \<open>reading\<close> is a computation that only reads; \<open>alloc\<close> is an
  object or array literal.
\<close>

type_synonym 'a hcomp = "heap \<Rightarrow> 'a comp \<times> heap"

definition hthen :: "'a hcomp \<Rightarrow> ('a \<Rightarrow> 'b hcomp) \<Rightarrow> 'b hcomp" where
  "hthen m f h =
     (case m h of
        (Val x, h') \<Rightarrow> f x h'
      | (Ret r, h') \<Rightarrow> (Ret r, h')
      | (Thrown e, h') \<Rightarrow> (Thrown e, h')
      | (Unmodelled, h') \<Rightarrow> (Unmodelled, h'))"

definition reading :: "(heap \<Rightarrow> 'a comp) \<Rightarrow> 'a hcomp" where
  "reading f h = (f h, h)"

definition alloc :: "cell \<Rightarrow> nat hcomp" where
  "alloc c h = (Val (length h), h @ [c])"

fun put :: "jstr \<Rightarrow> hval \<Rightarrow> (jstr \<times> hval) list \<Rightarrow> (jstr \<times> hval) list" where
  "put k v [] = [(k, v)]"
| "put k v ((k', x) # kvs) = (if k' = k then (k, v) # kvs else (k', x) # put k v kvs)"

text \<open>\<open>o.k = v\<close> and \<open>xs.push(v)\<close> for the object and the array at an address.\<close>

definition set_prop :: "nat \<Rightarrow> jstr \<Rightarrow> hval \<Rightarrow> unit hcomp" where
  "set_prop a k v h =
     (case cell_at h a of
        Some (ObjCell kvs) \<Rightarrow> (Val (), h[a := ObjCell (put k v kvs)])
      | _ \<Rightarrow> (Unmodelled, h))"

definition push :: "hval \<Rightarrow> hval \<Rightarrow> unit hcomp" where
  "push target v h =
     (case target of
        HRef a \<Rightarrow>
          (case cell_at h a of
             Some (ArrCell xs) \<Rightarrow> (Val (), h[a := ArrCell (xs @ [v])])
           | Some (ObjCell kvs) \<Rightarrow> (Thrown TypeError, h)
           | None \<Rightarrow> (Unmodelled, h))
      | _ \<Rightarrow> (Thrown TypeError, h))"

subsection \<open>The handler's \<open>try\<close> block on the heap\<close>

text \<open>The object literal of lines 87 to 96, allocated in every round.\<close>

definition h_new_forecast :: "hval \<Rightarrow> nat \<Rightarrow> nat hcomp" where
  "h_new_forecast wxElement i =
     hthen (reading (\<lambda>h. h_time_entry h wxElement i)) (\<lambda>e1.
     hthen (reading (\<lambda>h. h_get_prop h e1 (ascii ''startTime''))) (\<lambda>start.
     hthen (reading (\<lambda>h. h_time_entry h wxElement i)) (\<lambda>e2.
     hthen (reading (\<lambda>h. h_get_prop h e2 (ascii ''endTime''))) (\<lambda>finish.
     alloc (ObjCell
       [(ascii ''startTime'', start), (ascii ''endTime'', finish),
        (ascii ''weather'', HStr []), (ascii ''rain'', HStr []),
        (ascii ''minTemp'', HStr []), (ascii ''maxTemp'', HStr []),
        (ascii ''comfort'', HStr []), (ascii ''windSpeed'', HStr [])])))))"

text \<open>The \<open>switch\<close> of lines 101 to 123, and the callback of \<open>forEach\<close>, lines 98 to 124.\<close>

definition h_assign_field :: "nat \<Rightarrow> hval \<Rightarrow> hval \<Rightarrow> nat \<Rightarrow> unit hcomp" where
  "h_assign_field depth name v forecast =
     (if name = HStr (ascii ''Wx'') then set_prop forecast (ascii ''weather'') v
      else if name = HStr (ascii ''PoP6h'') then
        hthen (reading (\<lambda>h. h_add_str depth h v percent)) (\<lambda>s.
        set_prop forecast (ascii ''rain'') s)
      else if name = HStr (ascii ''T'') then
        hthen (reading (\<lambda>h. h_add_str depth h v degrees_celsius)) (\<lambda>s1.
        hthen (set_prop forecast (ascii ''minTemp'') s1) (\<lambda>_.
        hthen (reading (\<lambda>h. h_add_str depth h v degrees_celsius)) (\<lambda>s2.
        set_prop forecast (ascii ''maxTemp'') s2)))
      else if name = HStr (ascii ''CI'') then set_prop forecast (ascii ''comfort'') v
      else if name = HStr (ascii ''Ws'') then set_prop forecast (ascii ''windSpeed'') v
      else (\<lambda>h. (Val (), h)))"

definition h_process_element :: "nat \<Rightarrow> nat \<Rightarrow> nat \<Rightarrow> hval \<Rightarrow> unit hcomp" where
  "h_process_element depth i forecast element =
     hthen (reading (\<lambda>h. h_read_value h i element)) (\<lambda>r.
     case r of
       None \<Rightarrow> (\<lambda>h. (Val (), h))
     | Some v \<Rightarrow>
         hthen (reading (\<lambda>h. h_get_prop h element (ascii ''elementName''))) (\<lambda>name.
         h_assign_field depth name v forecast))"

text \<open>
  \<open>xs.forEach(f)\<close>: the length is read once, the elements are read from the heap as
  the iteration reaches them.
\<close>

primrec h_for_each :: "(hval \<Rightarrow> unit hcomp) \<Rightarrow> hval \<Rightarrow> nat \<Rightarrow> nat \<Rightarrow> unit hcomp" where
  "h_for_each f xs j 0 = (\<lambda>h. (Val (), h))"
| "h_for_each f xs j (Suc k) =
     hthen (reading (\<lambda>h. h_get_index h xs j)) (\<lambda>x.
     hthen (f x) (\<lambda>_. h_for_each f xs (Suc j) k))"

definition h_forEach :: "hval \<Rightarrow> (hval \<Rightarrow> unit hcomp) \<Rightarrow> unit hcomp" where
  "h_forEach xs f =
     hthen (reading (\<lambda>h. h_elements h xs)) (\<lambda>els. h_for_each f xs 0 (length els))"

text \<open>The fallback to \<open>PoP12h\<close>, lines 126 to 135.\<close>

definition h_resolve_rain :: "nat \<Rightarrow> hval \<Rightarrow> nat \<Rightarrow> nat \<Rightarrow> unit hcomp" where
  "h_resolve_rain depth weatherElements i forecast =
     hthen (reading (\<lambda>h. h_get_prop h (HRef forecast) (ascii ''rain''))) (\<lambda>rain.
     if \<not> h_truthy rain then
       hthen (reading (\<lambda>h. h_find h weatherElements
                (h_name_is h (ascii ''elementName'') (ascii ''PoP12h'')))) (\<lambda>pop12hElement.
       if \<not> h_truthy pop12hElement then set_prop forecast (ascii ''rain'') (HStr (ascii ''0%''))
       else
         hthen (reading (\<lambda>h. h_time_entry h pop12hElement i)) (\<lambda>entry.
         if h_truthy entry then
           hthen (reading (\<lambda>h. h_time_entry h pop12hElement i)) (\<lambda>entry'.
           hthen (reading (\<lambda>h. h_get_prop h entry' (ascii ''parameter''))) (\<lambda>parameter.
           hthen (reading (\<lambda>h. h_get_prop h parameter (ascii ''parameterName''))) (\<lambda>popValue.
           hthen (reading (\<lambda>h. h_add_str depth h popValue percent)) (\<lambda>s.
           set_prop forecast (ascii ''rain'') s))))
         else set_prop forecast (ascii ''rain'') (HStr (ascii ''0%''))))
     else (\<lambda>h. (Val (), h)))"

text \<open>One round of the loop, lines 87 to 138, for the object \<open>weatherData\<close>.\<close>

definition h_round :: "nat \<Rightarrow> hval \<Rightarrow> hval \<Rightarrow> hval \<Rightarrow> nat \<Rightarrow> unit hcomp" where
  "h_round depth weatherData weatherElements wxElement i =
     hthen (h_new_forecast wxElement i) (\<lambda>forecast.
     hthen (h_forEach weatherElements (h_process_element depth i forecast)) (\<lambda>_.
     hthen (h_resolve_rain depth weatherElements i forecast) (\<lambda>_.
     hthen (reading (\<lambda>h. h_get_prop h weatherData (ascii ''forecasts''))) (\<lambda>forecasts.
     push forecasts (HRef forecast)))))"

text \<open>The loop of line 86, with its bound read once at line 84.\<close>

definition h_iterations :: "hval \<Rightarrow> nat" where
  "h_iterations v =
     (case v of
        HNum m e \<Rightarrow> (if 0 \<le> e then nat (m * 10 ^ nat e) else nat (- ((- m) div 10 ^ nat (- e))))
      | HBool b \<Rightarrow> (if b then 1 else 0)
      | _ \<Rightarrow> 0)"

function h_for_loop :: "(nat \<Rightarrow> unit hcomp) \<Rightarrow> hval \<Rightarrow> nat \<Rightarrow> unit hcomp" where
  "h_for_loop body timeCount i h =
     (case h_less h i timeCount of
        Val b \<Rightarrow>
          (if b then hthen (body i) (\<lambda>_. h_for_loop body timeCount (Suc i)) h
           else (Val (), h))
      | Ret r \<Rightarrow> (Ret r, h)
      | Thrown e \<Rightarrow> (Thrown e, h)
      | Unmodelled \<Rightarrow> (Unmodelled, h))"
  by pat_completeness auto
termination
proof (relation "measure (\<lambda>(body, timeCount, i, h). h_iterations timeCount - i)")
  fix body :: "nat \<Rightarrow> unit hcomp" and timeCount i and h h' :: heap and b
  assume less: "h_less h i timeCount = Val b" and b
  have "i < h_iterations timeCount"
  proof (cases timeCount)
    case (HNum m e)
    with less \<open>b\<close> have dec: "less_decimal i m e" by (simp split: if_splits)
    show ?thesis
    proof (cases "0 \<le> e")
      case True
      with dec HNum show ?thesis by (simp add: h_iterations_def less_decimal_def)
    next
      case False
      let ?K = "(10::int) ^ nat (- e)"
      have K: "0 < ?K" by simp
      from dec False have lt: "int i * ?K < m" by (simp add: less_decimal_def)
      have "(- m) div ?K * ?K + (- m) mod ?K = - m" by (rule div_mult_mod_eq)
      moreover have "0 \<le> (- m) mod ?K" using K by simp
      ultimately have "m \<le> - ((- m) div ?K) * ?K" unfolding mult_minus_left by linarith
      with lt have "int i * ?K < - ((- m) div ?K) * ?K" by linarith
      with K have "int i < - ((- m) div ?K)" by (simp only: mult_less_cancel_right)
      with HNum False show ?thesis by (simp add: h_iterations_def)
    qed
  qed (use less \<open>b\<close> in
        \<open>simp_all add: h_iterations_def split: if_splits option.splits cell.splits\<close>)
  then show "((body, timeCount, Suc i, h'), body, timeCount, i, h)
      \<in> measure (\<lambda>(body, timeCount, i, h). h_iterations timeCount - i)" by simp
qed simp

text \<open>Lines 47 to 66 read the heap only.\<close>

definition h_locate_township :: "heap \<Rightarrow> hval \<Rightarrow> hval comp" where
  "h_locate_township h data =
     andThen (h_get_prop h data (ascii ''records'')) (\<lambda>records.
     andThen (h_get_prop h records (ascii ''locations'')) (\<lambda>locations.
     andThen (h_get_index h locations 0) (\<lambda>locationDataContainer.
     if \<not> h_truthy locationDataContainer then
       Ret (404, ErrorJson no_data no_county_message)
     else andThen (h_get_prop h locationDataContainer (ascii ''location'')) (\<lambda>location.
       if \<not> h_truthy location then Ret (404, ErrorJson no_data no_county_message)
       else
         andThen (h_find h location (h_name_is h (ascii ''locationName'') taitung_city))
           (\<lambda>found.
         andThen (if h_truthy found then Val found else h_get_index h location 0)
           (\<lambda>taitungCityData.
         if \<not> h_truthy taitungCityData then Ret (404, ErrorJson no_data no_city_message)
         else Val taitungCityData))))))"

text \<open>
  Lines 69 to 144. The object literal of line 69 allocates the array \<open>forecasts\<close> and
  the object \<open>weatherData\<close>; the result is the status and the reference to
  \<open>weatherData\<close> that \<open>res.json\<close> serializes.
\<close>

definition h_normalize_township :: "nat \<Rightarrow> hval \<Rightarrow> hval \<Rightarrow> (nat \<times> hval) hcomp" where
  "h_normalize_township depth data taitungCityData =
     hthen (reading (\<lambda>h. h_get_prop h taitungCityData (ascii ''locationName''))) (\<lambda>name.
     hthen (reading (\<lambda>h. h_get_prop h data (ascii ''records''))) (\<lambda>records.
     hthen (reading (\<lambda>h. h_get_prop h records (ascii ''issueTime''))) (\<lambda>issueTime.
     hthen (alloc (ArrCell [])) (\<lambda>forecasts.
     hthen (alloc (ObjCell
       [(ascii ''city'', name),
        (ascii ''updateTime'',
           if h_truthy issueTime then issueTime else HStr unknown_issue_time),
        (ascii ''forecasts'', HRef forecasts)])) (\<lambda>weatherData.
     hthen (reading (\<lambda>h. h_get_prop h taitungCityData (ascii ''weatherElement'')))
       (\<lambda>weatherElements.
     hthen (reading (\<lambda>h. h_find h weatherElements
              (h_name_is h (ascii ''elementName'') (ascii ''Wx'')))) (\<lambda>wxElement.
     if \<not> h_truthy wxElement then (\<lambda>h. (Thrown (Error missing_wx), h))
     else
       hthen (reading (\<lambda>h. h_get_prop h wxElement (ascii ''time''))) (\<lambda>t.
       hthen (reading (\<lambda>h. h_get_prop h t (ascii ''length''))) (\<lambda>timeCount.
       hthen (h_for_loop (h_round depth (HRef weatherData) weatherElements wxElement)
                timeCount 0) (\<lambda>_.
       (\<lambda>h. (Val (200, HRef weatherData), h))))))))))))"

definition h_try_body :: "nat \<Rightarrow> hval \<Rightarrow> (nat \<times> hval) hcomp" where
  "h_try_body depth data =
     hthen (reading (\<lambda>h. h_locate_township h data)) (h_normalize_township depth data)"

subsection \<open>Heaps and documents\<close>

text \<open>A computation that changes at most the cell at \<open>a\<close>, and allocates nothing.\<close>

definition only_cell :: "nat \<Rightarrow> 'a hcomp \<Rightarrow> bool" where
  "only_cell a m \<longleftrightarrow>
     (\<forall>h r h'. m h = (r, h') \<longrightarrow> length h' = length h \<and> (\<forall>b. b \<noteq> a \<longrightarrow> h' ! b = h ! b))"

text \<open>
  A heap extends another when it keeps all its cells; a value denotes a tree in a heap when
  it stands for that tree.
\<close>

definition extends :: "heap \<Rightarrow> heap \<Rightarrow> bool" where
  "extends h0 h \<longleftrightarrow> length h0 \<le> length h \<and> (\<forall>a < length h0. h ! a = h0 ! a)"

definition denotes :: "nat \<Rightarrow> heap \<Rightarrow> hval \<Rightarrow> jsval \<Rightarrow> bool" where
  "denotes d h0 x t \<longleftrightarrow> tree_of d h0 x = Some t"

text \<open>The cell at \<open>a\<close> is the object \<open>forecast\<close>, with fields that denote those of \<open>fc\<close>.\<close>

definition holds_forecast :: "nat \<Rightarrow> heap \<Rightarrow> heap \<Rightarrow> nat \<Rightarrow> forecast \<Rightarrow> bool" where
  "holds_forecast d h0 h a fc \<longleftrightarrow>
     (\<exists>s e w r mn mx c ws.
        cell_at h a = Some (ObjCell
          [(ascii ''startTime'', s), (ascii ''endTime'', e), (ascii ''weather'', w),
           (ascii ''rain'', r), (ascii ''minTemp'', mn), (ascii ''maxTemp'', mx),
           (ascii ''comfort'', c), (ascii ''windSpeed'', ws)]) \<and>
        denotes d h0 s (startTime fc) \<and> denotes d h0 e (endTime fc) \<and>
        denotes d h0 w (weather fc) \<and> denotes d h0 r (rain fc) \<and>
        denotes d h0 mn (minTemp fc) \<and> denotes d h0 mx (maxTemp fc) \<and>
        denotes d h0 c (comfort fc) \<and> denotes d h0 ws (windSpeed fc))"

text \<open>
  The result of a computation on the heap and the result of the computation on trees
  agree: both fail the same way, or both yield values that \<open>P\<close> relates in the heap
  the computation leaves.
\<close>

definition hrel :: "(heap \<Rightarrow> 'a \<Rightarrow> 'b \<Rightarrow> bool) \<Rightarrow> 'a comp \<times> heap \<Rightarrow> 'b comp \<Rightarrow> bool" where
  "hrel P rh m \<longleftrightarrow> rel_comp (P (snd rh)) (fst rh) m"

text \<open>
  The state of the loop: the heap extends \<open>h0\<close>, the cell at \<open>wd\<close> is the object
  \<open>weatherData\<close>, whose \<open>forecasts\<close> is the array at \<open>fa\<close>, and that array refers
  to objects that hold the forecasts \<open>fs\<close>.
\<close>

definition holds_data ::
  "nat \<Rightarrow> heap \<Rightarrow> nat \<Rightarrow> nat \<Rightarrow> (jstr \<times> hval) list \<Rightarrow> heap \<Rightarrow> forecast list \<Rightarrow> bool" where
  "holds_data d h0 wd fa kvs h fs \<longleftrightarrow>
     extends h0 h \<and> length h0 \<le> fa \<and> cell_at h wd = Some (ObjCell kvs) \<and>
     h_own kvs (ascii ''forecasts'') = HRef fa \<and>
     (\<exists>refs. cell_at h fa = Some (ArrCell refs) \<and>
        list_all2 (\<lambda>r fc. \<exists>a. r = HRef a \<and> holds_forecast d h0 h a fc) refs fs)"

text \<open>The object \<open>weatherData\<close> as a tree: the value \<open>res.json\<close> is given as \<open>data\<close>.\<close>

definition json_of_forecast :: "forecast \<Rightarrow> jsval" where
  "json_of_forecast fc =
     Obj [(ascii ''startTime'', startTime fc), (ascii ''endTime'', endTime fc),
          (ascii ''weather'', weather fc), (ascii ''rain'', rain fc),
          (ascii ''minTemp'', minTemp fc), (ascii ''maxTemp'', maxTemp fc),
          (ascii ''comfort'', comfort fc), (ascii ''windSpeed'', windSpeed fc)]"

definition json_of_data :: "weather_data \<Rightarrow> jsval" where
  "json_of_data wd =
     Obj [(ascii ''city'', city wd), (ascii ''updateTime'', updateTime wd),
          (ascii ''forecasts'', Arr (map json_of_forecast (forecasts wd)))]"

text \<open>
  The response computed on the heap is the response computed on trees: the same status,
  and the reference stands for the tree of the success body's data.
\<close>

definition response_rel :: "nat \<Rightarrow> heap \<Rightarrow> nat \<times> hval \<Rightarrow> response \<Rightarrow> bool" where
  "response_rel d h r p \<longleftrightarrow>
     fst p = fst r \<and>
     (case snd p of
        SuccessJson wd \<Rightarrow> tree_of (d + 3) h (snd r) = Some (json_of_data wd)
      | _ \<Rightarrow> False)"

text \<open>The state of one round: the heap extends \<open>h0\<close> and holds the forecast at \<open>f\<close>.\<close>

definition in_round :: "nat \<Rightarrow> heap \<Rightarrow> nat \<Rightarrow> heap \<Rightarrow> unit \<Rightarrow> forecast \<Rightarrow> bool" where
  "in_round d h0 f h u fc \<longleftrightarrow> extends h0 h \<and> holds_forecast d h0 h f fc"

text \<open>
  What \<open>res.json\<close> sends: the status and the tree the body stands for in the heap at the
  time of the call.
\<close>

definition sent :: "nat \<Rightarrow> heap \<Rightarrow> (nat \<times> hval) comp \<Rightarrow> (nat \<times> jsval option) comp" where
  "sent d h r = map_comp (\<lambda>(st, x). (st, tree_of (d + 3) h x)) r"

section \<open>Example documents\<close>

text \<open>
  Builders for upstream documents of the shape the dataset has: a time entry with its
  parameter, a time entry without one, a weather element, a township and the document
  with one location group.
\<close>

definition slot :: "string \<Rightarrow> string \<Rightarrow> jsval \<Rightarrow> jsval" where
  "slot s e v =
     Obj [(ascii ''startTime'', Str (ascii s)), (ascii ''endTime'', Str (ascii e)),
          (ascii ''parameter'', Obj [(ascii ''parameterName'', v)])]"

definition bare_slot :: "string \<Rightarrow> string \<Rightarrow> jsval" where
  "bare_slot s e = Obj [(ascii ''startTime'', Str (ascii s)), (ascii ''endTime'', Str (ascii e))]"

definition element :: "string \<Rightarrow> jsval list \<Rightarrow> jsval" where
  "element name ts = Obj [(ascii ''elementName'', Str (ascii name)), (ascii ''time'', Arr ts)]"

definition township :: "jstr \<Rightarrow> jsval list \<Rightarrow> jsval" where
  "township name els =
     Obj [(ascii ''locationName'', Str name), (ascii ''weatherElement'', Arr els)]"

definition document :: "jsval list \<Rightarrow> jsval" where
  "document towns =
     Obj [(ascii ''records'',
           Obj [(ascii ''locations'', Arr [Obj [(ascii ''location'', Arr towns)]])])]"

definition api_key :: jstr where
  "api_key = ascii ''CWA-0000''"

definition serving :: "jsval \<Rightarrow> world" where
  "serving d = \<lparr>upstream = Fulfilled d, outbound = [], console = []\<rparr>"

text \<open>
  The scenario of the precipitation fallback: two \<open>Wx\<close> periods, \<open>PoP6h\<close> with the
  value 30 at index 0 only, \<open>PoP12h\<close> with the value 70 at index 1.
\<close>

definition fallback_elements :: "jsval list" where
  "fallback_elements =
     [element ''Wx'' [slot ''06:00'' ''12:00'' (Str (ascii ''Cloudy'')),
                      slot ''12:00'' ''18:00'' (Str (ascii ''Rain''))],
      element ''PoP6h'' [slot ''06:00'' ''12:00'' (Str (ascii ''30''))],
      element ''PoP12h'' [Null, slot ''12:00'' ''18:00'' (Str (ascii ''70''))]]"

definition fallback_document :: jsval where
  "fallback_document = document [township taitung_city fallback_elements]"

text \<open>
  The same scenario with numbers for values: \<open>PoP6h\<close> is the number 30 at index 0 and
  \<open>PoP12h\<close> the number 70.5 at index 1.
\<close>

definition numeric_rain_elements :: "jsval list" where
  "numeric_rain_elements =
     [element ''Wx'' [slot ''06:00'' ''12:00'' (Str (ascii ''Cloudy'')),
                      slot ''12:00'' ''18:00'' (Str (ascii ''Rain''))],
      element ''PoP6h'' [slot ''06:00'' ''12:00'' (Num 30 0)],
      element ''PoP12h'' [Null, slot ''12:00'' ''18:00'' (Num 705 (- 1))]]"

definition numeric_rain_document :: jsval where
  "numeric_rain_document = document [township taitung_city numeric_rain_elements]"

text \<open>
  Values that \<open>+\<close> cannot convert to a string: one period in which the value of
  \<open>PoP6h\<close>, or of \<open>T\<close>, is the object \<open>{toString: 1}\<close>.
\<close>

definition unprintable_rain_document :: jsval where
  "unprintable_rain_document =
     document [township taitung_city
       [element ''Wx'' [slot ''06:00'' ''12:00'' (Str (ascii ''Cloudy''))],
        element ''PoP6h'' [slot ''06:00'' ''12:00'' (Obj [(ascii ''toString'', Num 1 0)])]]]"

definition unprintable_temperature_document :: jsval where
  "unprintable_temperature_document =
     document [township taitung_city
       [element ''Wx'' [slot ''06:00'' ''12:00'' (Str (ascii ''Cloudy''))],
        element ''T'' [slot ''06:00'' ''12:00'' (Obj [(ascii ''toString'', Num 1 0)])]]]"

text \<open>A township without the \<open>Wx\<close> element.\<close>

definition no_wx_document :: jsval where
  "no_wx_document =
     document [township taitung_city
       [element ''T'' [slot ''06:00'' ''12:00'' (Str (ascii ''25''))]]]"

text \<open>One period with the temperature 25.\<close>

definition temperature_elements :: "jsval list" where
  "temperature_elements =
     [element ''Wx'' [slot ''06:00'' ''12:00'' (Str (ascii ''Cloudy''))],
      element ''T'' [slot ''06:00'' ''12:00'' (Str (ascii ''25''))]]"

definition temperature_document :: jsval where
  "temperature_document = document [township taitung_city temperature_elements]"

text \<open>
  Three periods with the temperatures 25, 25.5 and -0.5 as numbers, and one with the
  list \<open>[25, null, [true, "x"]]\<close> for a temperature.
\<close>

definition numeric_temperature_elements :: "jsval list" where
  "numeric_temperature_elements =
     [element ''Wx'' [slot ''06:00'' ''12:00'' (Str (ascii ''Cloudy'')),
                      slot ''12:00'' ''18:00'' (Str (ascii ''Cloudy'')),
                      slot ''18:00'' ''00:00'' (Str (ascii ''Clear'')),
                      slot ''00:00'' ''06:00'' (Str (ascii ''Clear''))],
      element ''T'' [slot ''06:00'' ''12:00'' (Num 25 0),
                     slot ''12:00'' ''18:00'' (Num 255 (- 1)),
                     slot ''18:00'' ''00:00'' (Num (- 5) (- 1)),
                     slot ''00:00'' ''06:00''
                       (Arr [Num 25 0, Null, Arr [Bool True, Str (ascii ''x'')]])]]"

definition numeric_temperature_document :: jsval where
  "numeric_temperature_document =
     document [township taitung_city numeric_temperature_elements]"

text \<open>
  One period for which \<open>Wx\<close> has an entry without a parameter, \<open>T\<close> has no entry,
  \<open>CI\<close> has \<open>null\<close> as its entry, and \<open>Ws\<close> and both \<open>PoP\<close> elements are absent.
\<close>

definition sparse_elements :: "jsval list" where
  "sparse_elements =
     [element ''Wx'' [bare_slot ''06:00'' ''12:00''], element ''T'' [], element ''CI'' [Null]]"

definition sparse_document :: jsval where
  "sparse_document = document [township taitung_city sparse_elements]"

text \<open>
  One period for which only \<open>PoP12h\<close> is there, with an entry that has no parameter.
\<close>

definition bare_pop12h_document :: jsval where
  "bare_pop12h_document =
     document [township taitung_city
       [element ''Wx'' [slot ''06:00'' ''12:00'' (Str (ascii ''Cloudy''))],
        element ''PoP12h'' [bare_slot ''06:00'' ''18:00'']]]"

text \<open>Township lists with the target city in second place, and without it.\<close>

definition one_period :: "jsval list" where
  "one_period = [element ''Wx'' [slot ''06:00'' ''12:00'' (Str (ascii ''Cloudy''))]]"

definition second_place_towns :: "jsval list" where
  "second_place_towns =
     [township (ascii ''Chenggong'') one_period, township taitung_city one_period]"

definition other_towns :: "jsval list" where
  "other_towns =
     [township (ascii ''Chenggong'') one_period, township (ascii ''Guanshan'') one_period]"

text \<open>
  Township lists with \<open>null\<close> before the target city, with \<open>null\<close> after a township
  of another name, and with the number 0 as the only entry.
\<close>

definition null_first_towns :: "jsval list" where
  "null_first_towns = [Null, township taitung_city one_period]"

definition null_later_towns :: "jsval list" where
  "null_later_towns = [township (ascii ''Chenggong'') one_period, Null]"

definition zero_towns :: "jsval list" where
  "zero_towns = [Num 0 0]"

text \<open>Documents without a location group, and without the list of groups.\<close>

definition no_group_document :: jsval where
  "no_group_document = Obj [(ascii ''records'', Obj [(ascii ''locations'', Arr [])])]"

definition no_locations_document :: jsval where
  "no_locations_document = Obj [(ascii ''records'', Obj [])]"

subsection \<open>A document on the heap\<close>

text \<open>
  The document with the single township \<^const>\<open>taitung_city\<close> and the elements of
  \<open>one_period\<close>, cell by cell, and the heaps that one and two runs of the \<open>try\<close> block
  leave: each run appends a forecast, the array of forecasts and \<open>weatherData\<close>.
\<close>

definition sample_heap :: heap where
  "sample_heap =
     [ObjCell [(ascii ''parameterName'', HStr (ascii ''Cloudy''))],
      ObjCell [(ascii ''startTime'', HStr (ascii ''06:00'')),
               (ascii ''endTime'', HStr (ascii ''12:00'')), (ascii ''parameter'', HRef 0)],
      ArrCell [HRef 1],
      ObjCell [(ascii ''elementName'', HStr (ascii ''Wx'')), (ascii ''time'', HRef 2)],
      ArrCell [HRef 3],
      ObjCell [(ascii ''locationName'', HStr taitung_city), (ascii ''weatherElement'', HRef 4)],
      ArrCell [HRef 5],
      ObjCell [(ascii ''location'', HRef 6)],
      ArrCell [HRef 7],
      ObjCell [(ascii ''locations'', HRef 8)],
      ObjCell [(ascii ''records'', HRef 9)]]"

definition first_forecast :: cell where
  "first_forecast =
     ObjCell [(ascii ''startTime'', HStr (ascii ''06:00'')),
              (ascii ''endTime'', HStr (ascii ''12:00'')),
              (ascii ''weather'', HStr (ascii ''Cloudy'')), (ascii ''rain'', HStr (ascii ''0%'')),
              (ascii ''minTemp'', HStr []), (ascii ''maxTemp'', HStr []),
              (ascii ''comfort'', HStr []), (ascii ''windSpeed'', HStr [])]"

definition after_first :: heap where
  "after_first =
     sample_heap @
     [ArrCell [HRef 13],
      ObjCell [(ascii ''city'', HStr taitung_city),
               (ascii ''updateTime'', HStr unknown_issue_time), (ascii ''forecasts'', HRef 11)],
      first_forecast]"

definition after_second :: heap where
  "after_second =
     after_first @
     [ArrCell [HRef 16],
      ObjCell [(ascii ''city'', HStr taitung_city),
               (ascii ''updateTime'', HStr unknown_issue_time), (ascii ''forecasts'', HRef 14)],
      first_forecast]"

section \<open>Auxiliary lemmas\<close>

lemma andThen_simps [simp]:
  "andThen (Val x) f = f x"
  "andThen (Ret r) f = Ret r"
  "andThen (Thrown e) f = Thrown e"
  "andThen Unmodelled f = Unmodelled"
  by (simp_all add: andThen_def)

lemma andThen_Val_iff: "andThen m f = Val y \<longleftrightarrow> (\<exists>x. m = Val x \<and> f x = Val y)"
  by (cases m) simp_all

lemma ascii_eq_iff [simp]: "ascii s = ascii t \<longleftrightarrow> s = t"
  by (simp add: ascii_def inj_map_eq_map inj_on_def)



lemma less_ceiling:
  fixes K :: int
  assumes K: "0 < K"
  shows "int i * K < m \<longleftrightarrow> i < nat (- ((- m) div K))"
proof -
  let ?q = "(- m) div K" and ?r = "(- m) mod K"
  have eq: "?q * K + ?r = - m" by (rule div_mult_mod_eq)
  have r: "0 \<le> ?r" "?r < K" using K by simp_all
  have up: "m \<le> (- ?q) * K" unfolding mult_minus_left using eq r by linarith
  have low: "(- ?q - 1) * K < m"
    unfolding left_diff_distrib mult_minus_left using eq r by linarith
  show ?thesis
  proof
    assume "int i * K < m"
    with up have "int i * K < (- ?q) * K" by linarith
    with K have "int i < - ?q" by (simp only: mult_less_cancel_right)
    then show "i < nat (- ?q)" by simp
  next
    assume "i < nat (- ?q)"
    then have "int i \<le> - ?q - 1" by simp
    with K have "int i * K \<le> (- ?q - 1) * K" by (intro mult_right_mono) simp_all
    with low show "int i * K < m" by linarith
  qed
qed

lemma less_decimal_iterations: "less_decimal i m e \<longleftrightarrow> i < iterations (Num m e)"
proof (cases "0 \<le> e")
  case True
  then show ?thesis by (auto simp: less_decimal_def iterations_def)
next
  case False
  then show ?thesis
    using less_ceiling [of "10 ^ nat (- e)" i m] by (simp add: less_decimal_def iterations_def)
qed

lemma less_than_Val: "js_less i tc = Val b \<Longrightarrow> b = (i < iterations tc)"
proof (cases tc)
  case (Num m e)
  assume "js_less i tc = Val b"
  with Num have "b = less_decimal i m e" by (auto split: if_splits)
  with Num show ?thesis by (simp add: less_decimal_iterations)
qed (auto simp: iterations_def split: if_splits)

lemma for_loop_Val:
  "for_loop body tc i acc = Val fs \<Longrightarrow>
     length fs = length acc + (iterations tc - i) \<and> take (length acc) fs = acc \<and>
     (\<forall>k < iterations tc - i. body (i + k) = Val (fs ! (length acc + k)))"
proof (induction body tc i acc rule: for_loop.induct)
  case (1 body tc i acc)
  from "1.prems" obtain b where lt: "js_less i tc = Val b"
    by (subst (asm) for_loop.simps) (auto split: comp.splits)
  have b: "b = (i < iterations tc)" using lt by (rule less_than_Val)
  show ?case
  proof (cases b)
    case False
    with "1.prems" lt b show ?thesis
      by (subst (asm) for_loop.simps) simp
  next
    case True
    with "1.prems" lt obtain x where x: "body i = Val x"
      and rest: "for_loop body tc (Suc i) (acc @ [x]) = Val fs"
      by (subst (asm) for_loop.simps) (auto simp: andThen_Val_iff)
    from "1.IH" [OF lt True rest]
    have len: "length fs = length (acc @ [x]) + (iterations tc - Suc i)"
      and tk: "take (length (acc @ [x])) fs = acc @ [x]"
      and nth: "\<forall>k < iterations tc - Suc i. body (Suc i + k) = Val (fs ! (length (acc @ [x]) + k))"
      by blast+
    have len': "length fs = length acc + (iterations tc - i)"
      using len True b by simp
    have "take (length acc) (take (length (acc @ [x])) fs) = take (length acc) (acc @ [x])"
      using tk by simp
    then have tk': "take (length acc) fs = acc" by simp
    have at: "fs ! length acc = x"
      using arg_cong [OF tk, of "\<lambda>l. l ! length acc"] by simp
    have "body (i + k) = Val (fs ! (length acc + k))" if "k < iterations tc - i" for k
    proof (cases k)
      case 0
      then show ?thesis using x at by simp
    next
      case (Suc k')
      with that have "k' < iterations tc - Suc i" by simp
      with nth have "body (Suc i + k') = Val (fs ! (length (acc @ [x]) + k'))" by blast
      with Suc show ?thesis by simp
    qed
    with len' tk' show ?thesis by blast
  qed
qed


lemma get_prop_cases: "(\<exists>u. get_prop v k = Val u) \<or> get_prop v k = Thrown TypeError"
  by (cases v) simp_all

lemma get_prop_truthy: "truthy v \<Longrightarrow> \<exists>u. get_prop v k = Val u"
  by (cases v) simp_all

lemma get_prop_Str_Obj: "get_prop x k = Val (Str s) \<Longrightarrow> \<exists>kvs. x = Obj kvs"
  by (cases x) (simp_all split: if_splits)

lemma get_prop_Arr_Obj: "get_prop x k = Val (Arr ys) \<Longrightarrow> \<exists>kvs. x = Obj kvs"
  by (cases x) (simp_all split: if_splits)

lemma get_index_cases: "(\<exists>u. get_index v i = Val u) \<or> get_index v i = Thrown TypeError"
  by (cases v) simp_all

lemma name_is_True_iff: "name_is k s x = Val True \<longleftrightarrow> get_prop x k = Val (Str s)"
  using get_prop_cases [of x k] by (auto simp: name_is_def)

lemma name_is_cases: "(\<exists>b. name_is k s x = Val b) \<or> name_is k s x = Thrown TypeError"
  using get_prop_cases [of x k] by (auto simp: name_is_def)

lemma name_is_True_truthy: "name_is k s x = Val True \<Longrightarrow> truthy x"
  by (auto simp: name_is_True_iff dest: get_prop_Str_Obj)

lemma find_first_cases:
  "(\<exists>x. find_first (name_is k s) xs = Val x) \<or> find_first (name_is k s) xs = Thrown TypeError"
proof (induction xs)
  case Nil
  show ?case by simp
next
  case (Cons y ys)
  from name_is_cases [of k s y] show ?case
  proof
    assume "\<exists>b. name_is k s y = Val b"
    then obtain b where "name_is k s y = Val b" ..
    with Cons show ?thesis by (cases b) simp_all
  next
    assume "name_is k s y = Thrown TypeError"
    then show ?thesis by simp
  qed
qed

lemma find_first_Val:
  "find_first (name_is k s) xs = Val x \<Longrightarrow>
     (x = Undefined \<and> (\<forall>y \<in> set xs. name_is k s y = Val False)) \<or>
     (\<exists>j < length xs. x = xs ! j \<and> name_is k s x = Val True \<and>
        (\<forall>m < j. name_is k s (xs ! m) = Val False))"
proof (induction xs)
  case Nil
  then show ?case by simp
next
  case (Cons y ys)
  from Cons.prems obtain b where b: "name_is k s y = Val b"
    and rest: "(if b then Val y else find_first (name_is k s) ys) = Val x"
    by (auto simp: andThen_Val_iff)
  show ?case
  proof (cases b)
    case True
    with b rest have "x = (y # ys) ! 0" "name_is k s x = Val True" by simp_all
    then show ?thesis by (intro disjI2 exI [of _ 0]) simp
  next
    case False
    with rest have "find_first (name_is k s) ys = Val x" by simp
    from Cons.IH [OF this] show ?thesis
    proof
      assume "x = Undefined \<and> (\<forall>y \<in> set ys. name_is k s y = Val False)"
      with b False show ?thesis by simp
    next
      assume "\<exists>j < length ys. x = ys ! j \<and> name_is k s x = Val True \<and>
        (\<forall>m < j. name_is k s (ys ! m) = Val False)"
      then obtain j where j: "j < length ys" "x = ys ! j" "name_is k s x = Val True"
        "\<forall>m < j. name_is k s (ys ! m) = Val False" by blast
      have "\<forall>m < Suc j. name_is k s ((y # ys) ! m) = Val False"
        using j(4) b False by (auto simp: less_Suc_eq_0_disj)
      with j(1-3) show ?thesis by (intro disjI2 exI [of _ "Suc j"]) simp
    qed
  qed
qed

lemma find_first_match:
  "j < length xs \<Longrightarrow> name_is k s (xs ! j) = Val True \<Longrightarrow>
   \<forall>m < j. name_is k s (xs ! m) = Val False \<Longrightarrow>
   find_first (name_is k s) xs = Val (xs ! j)"
proof (induction xs arbitrary: j)
  case Nil
  then show ?case by simp
next
  case (Cons y ys)
  show ?case
  proof (cases j)
    case 0
    with Cons.prems show ?thesis by simp
  next
    case (Suc j')
    with Cons.prems have y: "name_is k s y = Val False" by auto
    from Suc Cons.prems have "\<forall>m < j'. name_is k s (ys ! m) = Val False" by auto
    with Cons.IH [of j'] Suc Cons.prems y show ?thesis by simp
  qed
qed

lemma find_first_none:
  "\<forall>y \<in> set xs. name_is k s y = Val False \<Longrightarrow> find_first (name_is k s) xs = Val Undefined"
  by (induction xs) simp_all

lemma find_first_truthy:
  "find_first (name_is k s) xs = Val x \<Longrightarrow> truthy x \<Longrightarrow>
     x \<in> set xs \<and> name_is k s x = Val True"
  by (drule find_first_Val) auto


lemma andThen_Ret_iff: "andThen m f = Ret r \<longleftrightarrow> m = Ret r \<or> (\<exists>x. m = Val x \<and> f x = Ret r)"
  by (cases m) simp_all

lemma get_prop_not_Ret [simp]: "get_prop v k \<noteq> Ret r"
  by (cases v) simp_all

lemma get_index_not_Ret [simp]: "get_index v i \<noteq> Ret r"
  by (cases v) simp_all

lemma name_is_not_Ret [simp]: "name_is k s x \<noteq> Ret r"
  using name_is_cases [of k s x] by auto

lemma find_first_not_Ret [simp]: "find_first (name_is k s) xs \<noteq> Ret r"
  using find_first_cases [of k s xs] by auto

lemma find_js_not_Ret [simp]: "find_js v (name_is k s) \<noteq> Ret r"
  by (cases v) (simp_all add: find_js_def)

lemma time_entry_not_Ret [simp]: "time_entry e i \<noteq> Ret r"
  by (simp add: time_entry_def andThen_Ret_iff)

lemma read_value_not_Ret [simp]: "read_value i e \<noteq> Ret r"
  by (simp add: read_value_def andThen_Ret_iff)

lemma collect_not_Ret: "\<forall>m \<in> set ms. m \<noteq> Ret r \<Longrightarrow> collect ms \<noteq> Ret r"
  by (induction ms) (auto simp: andThen_Ret_iff)

lemma to_string_not_Ret [simp]: "to_string v \<noteq> Ret r"
proof (induction v rule: to_string.induct)
  case (6 xs)
  have "collect (map (\<lambda>v. if v = Undefined \<or> v = Null then Val [] else to_string v) xs) \<noteq> Ret r"
  proof (rule collect_not_Ret, rule ballI)
    fix m
    assume "m \<in> set (map (\<lambda>v. if v = Undefined \<or> v = Null then Val [] else to_string v) xs)"
    then obtain x where x: "x \<in> set xs"
      and m: "m = (if x = Undefined \<or> x = Null then Val [] else to_string x)" by auto
    show "m \<noteq> Ret r"
    proof (cases "x = Undefined \<or> x = Null")
      case True
      with m show ?thesis by simp
    next
      case False
      with 6 [OF x] m show ?thesis by simp
    qed
  qed
  then show ?case by (simp add: andThen_Ret_iff)
qed simp_all

lemma add_str_not_Ret [simp]: "add_str v suffix \<noteq> Ret r"
  by (simp add: add_str_def andThen_Ret_iff)

lemma assign_field_not_Ret [simp]: "assign_field n v fc \<noteq> Ret r"
  by (simp add: assign_field_def andThen_Ret_iff)

lemma process_element_not_Ret [simp]: "process_element i e fc \<noteq> Ret r"
  by (auto simp: process_element_def andThen_Ret_iff split: option.splits)

lemma for_each_not_Ret [simp]: "for_each (process_element i) xs fc \<noteq> Ret r"
  by (induction xs arbitrary: fc) (simp_all add: andThen_Ret_iff)

lemma forEach_js_not_Ret [simp]: "forEach_js v (process_element i) fc \<noteq> Ret r"
  by (cases v) (simp_all add: forEach_js_def)

lemma new_forecast_not_Ret [simp]: "new_forecast wx i \<noteq> Ret r"
  by (simp add: new_forecast_def andThen_Ret_iff)

lemma resolve_rain_not_Ret [simp]: "resolve_rain wes i fc \<noteq> Ret r"
  by (simp add: resolve_rain_def andThen_Ret_iff)

lemma forecast_at_not_Ret [simp]: "forecast_at wes wx i \<noteq> Ret r"
  by (simp add: forecast_at_def andThen_Ret_iff)

lemma js_less_not_Ret [simp]: "js_less i v \<noteq> Ret r"
  by (cases v) simp_all

lemma for_loop_not_Ret: "(\<And>k. body k \<noteq> Ret r) \<Longrightarrow> for_loop body tc i acc \<noteq> Ret r"
proof (induction body tc i acc rule: for_loop.induct)
  case (1 body tc i acc)
  show ?case
  proof (cases "js_less i tc")
    case (Val b)
    show ?thesis
    proof (cases b)
      case True
      with Val "1.IH" [OF Val True] "1.prems" show ?thesis
        by (subst for_loop.simps) (simp add: andThen_Ret_iff)
    next
      case False
      with Val show ?thesis by (subst for_loop.simps) simp
    qed
  qed (simp_all add: for_loop.simps)
qed

lemma normalize_township_not_Ret [simp]: "normalize_township data tcd \<noteq> Ret r"
  by (simp add: normalize_township_def andThen_Ret_iff for_loop_not_Ret)

lemma locate_township_Ret:
  "locate_township data = Ret r \<Longrightarrow>
     r = (404, ErrorJson no_data no_county_message) \<or> r = (404, ErrorJson no_data no_city_message)"
  by (auto simp: locate_township_def andThen_Ret_iff split: if_splits)

lemma try_body_Ret:
  "try_body data = Ret r \<Longrightarrow>
     r = (404, ErrorJson no_data no_county_message) \<or> r = (404, ErrorJson no_data no_city_message)"
  by (auto simp: try_body_def andThen_Ret_iff dest: locate_township_Ret)

lemma try_body_Val:
  "try_body data = Val r \<Longrightarrow>
     \<exists>tcd. locate_township data = Val tcd \<and> normalize_township data tcd = Val r"
  by (simp add: try_body_def andThen_Val_iff)

lemma handler_success:
  assumes "fst (getTaitungWeather key w) = Responded (st, SuccessJson wd)"
  shows "\<exists>data. upstream w = Fulfilled data \<and> try_body data = Val (st, SuccessJson wd)"
proof -
  from assms obtain k where k: "key = Some k" "k \<noteq> []"
    by (auto simp: getTaitungWeather_def split: option.splits if_splits)
  show ?thesis
  proof (cases "upstream w")
    case (Fulfilled data)
    with assms k show ?thesis
      by (auto simp: getTaitungWeather_def axios_get_def split: comp.splits
          dest: try_body_Ret simp: catch_block_def Let_def split: exn.splits option.splits)
  next
    case (Rejected r)
    with assms k show ?thesis
      by (auto simp: getTaitungWeather_def axios_get_def catch_block_def Let_def
          split: comp.splits exn.splits option.splits)
  qed
qed


lemma normalize_township_Val:
  assumes "normalize_township data tcd = Val (st, SuccessJson wd)"
  shows "st = 200 \<and> get_prop tcd (ascii ''locationName'') = Val (city wd) \<and>
    (\<exists>wes wx t tc.
       get_prop tcd (ascii ''weatherElement'') = Val wes \<and>
       find_js wes (name_is (ascii ''elementName'') (ascii ''Wx'')) = Val wx \<and> truthy wx \<and>
       get_prop wx (ascii ''time'') = Val t \<and> get_prop t (ascii ''length'') = Val tc \<and>
       length (forecasts wd) = iterations tc \<and>
       (\<forall>k < length (forecasts wd). forecast_at wes wx k = Val (forecasts wd ! k)))"
proof -
  from assms obtain name recs issueTime wes wx t tc fs where
    name: "get_prop tcd (ascii ''locationName'') = Val name" and
    wes: "get_prop tcd (ascii ''weatherElement'') = Val wes" and
    wx: "find_js wes (name_is (ascii ''elementName'') (ascii ''Wx'')) = Val wx" "truthy wx" and
    t: "get_prop wx (ascii ''time'') = Val t" and
    tc: "get_prop t (ascii ''length'') = Val tc" and
    loop: "for_loop (forecast_at wes wx) tc 0 [] = Val fs" and
    res: "(st, SuccessJson wd) = (200, SuccessJson
         \<lparr>city = name, updateTime = or_else issueTime (Str unknown_issue_time),
          forecasts = fs\<rparr>)"
    unfolding normalize_township_def
    by (auto simp: andThen_Val_iff split: if_splits)
  from res have st: "st = 200" and c: "city wd = name" and fs: "forecasts wd = fs" by simp_all
  from for_loop_Val [OF loop]
  have "length fs = iterations tc" "\<forall>k < iterations tc. forecast_at wes wx k = Val (fs ! k)"
    by simp_all
  with st c fs name wes wx t tc show ?thesis by auto
qed

lemma forecast_at_Val:
  "forecast_at wes wx i = Val f \<Longrightarrow>
     \<exists>els fc0 fc1. wes = Arr els \<and> new_forecast wx i = Val fc0 \<and>
        for_each (process_element i) els fc0 = Val fc1 \<and> resolve_rain wes i fc1 = Val f"
  by (cases wes) (auto simp: forecast_at_def forEach_js_def andThen_Val_iff)

lemma new_forecast_Val:
  "new_forecast wx i = Val fc \<Longrightarrow>
     weather fc = Str [] \<and> rain fc = Str [] \<and> minTemp fc = Str [] \<and> maxTemp fc = Str [] \<and>
     comfort fc = Str [] \<and> windSpeed fc = Str []"
  by (auto simp: new_forecast_def andThen_Val_iff)

lemma resolve_rain_Val:
  "resolve_rain wes i fc = Val f \<Longrightarrow> \<exists>r. f = fc\<lparr>rain := r\<rparr>"
  unfolding resolve_rain_def
  by (auto simp: andThen_Val_iff split: if_splits intro: exI [of _ "rain fc"])

lemma process_element_Val:
  "process_element i e fc = Val fc' \<Longrightarrow>
     (read_value i e = Val None \<and> fc' = fc) \<or>
     (\<exists>v n. read_value i e = Val (Some v) \<and> get_prop e (ascii ''elementName'') = Val n \<and>
        assign_field n v fc = Val fc')"
proof -
  assume a: "process_element i e fc = Val fc'"
  then obtain r where r: "read_value i e = Val r"
    by (auto simp: process_element_def andThen_Val_iff)
  show ?thesis
  proof (cases r)
    case None
    with a r show ?thesis by (simp add: process_element_def)
  next
    case (Some v)
    with a r show ?thesis by (auto simp: process_element_def andThen_Val_iff)
  qed
qed

lemma for_each_invariant:
  assumes "for_each (process_element i) els fc0 = Val fc1"
    and step: "\<And>e n u fc fc'. e \<in> set els \<Longrightarrow> get_prop e (ascii ''elementName'') = Val n \<Longrightarrow>
           read_value i e = Val (Some u) \<Longrightarrow> Q fc \<Longrightarrow> assign_field n u fc = Val fc' \<Longrightarrow> Q fc'"
    and "Q fc0"
  shows "Q fc1"
  using assms
proof (induction els arbitrary: fc0)
  case Nil
  then show ?case by simp
next
  case (Cons x xs)
  from Cons.prems(1) obtain fc' where x: "process_element i x fc0 = Val fc'"
    and xs: "for_each (process_element i) xs fc' = Val fc1"
    by (auto simp: andThen_Val_iff)
  from process_element_Val [OF x] have "Q fc'"
  proof
    assume "read_value i x = Val None \<and> fc' = fc0"
    with Cons.prems(3) show ?thesis by simp
  next
    assume "\<exists>v n. read_value i x = Val (Some v) \<and>
      get_prop x (ascii ''elementName'') = Val n \<and> assign_field n v fc0 = Val fc'"
    then obtain v n where "read_value i x = Val (Some v)"
      "get_prop x (ascii ''elementName'') = Val n" "assign_field n v fc0 = Val fc'" by blast
    with Cons.prems(2) [of x n v fc0 fc'] Cons.prems(3) show ?thesis by simp
  qed
  show ?case
  proof (rule Cons.IH [OF xs _ \<open>Q fc'\<close>])
    fix e n u fc fc''
    assume "e \<in> set xs" "get_prop e (ascii ''elementName'') = Val n"
      "read_value i e = Val (Some u)" "Q fc" "assign_field n u fc = Val fc''"
    with Cons.prems(2) [of e n u fc fc''] show "Q fc''" by simp
  qed
qed

lemma for_each_none:
  assumes run: "for_each (process_element i) els fc0 = Val fc1"
    and none: "\<forall>e \<in> set els. get_prop e (ascii ''elementName'') = Val (Str nm) \<longrightarrow>
           read_value i e = Val None"
    and stable: "\<And>n u fc fc'. n \<noteq> Str nm \<Longrightarrow> Q fc \<Longrightarrow> assign_field n u fc = Val fc' \<Longrightarrow> Q fc'"
    and init: "Q fc0"
  shows "Q fc1"
proof (rule for_each_invariant [where Q = Q, OF run _ init])
  fix e n u fc fc'
  assume "e \<in> set els" "get_prop e (ascii ''elementName'') = Val n"
    "read_value i e = Val (Some u)" "Q fc" and a: "assign_field n u fc = Val fc'"
  with none have "n \<noteq> Str nm" "Q fc" by auto
  then show "Q fc'" using a by (rule stable)
qed

lemma for_each_last:
  assumes "for_each (process_element i) els fc0 = Val fc1"
    and "e \<in> set els"
    and name: "get_prop e (ascii ''elementName'') = Val (Str nm)"
    and val: "read_value i e = Val (Some v)"
    and "\<forall>e' \<in> set els. \<forall>u. get_prop e' (ascii ''elementName'') = Val (Str nm) \<and>
           read_value i e' = Val (Some u) \<longrightarrow> u = v"
    and set: "\<And>fc fc'. assign_field (Str nm) v fc = Val fc' \<Longrightarrow> Q fc'"
    and stable: "\<And>n u fc fc'. n \<noteq> Str nm \<Longrightarrow> Q fc \<Longrightarrow> assign_field n u fc = Val fc' \<Longrightarrow> Q fc'"
  shows "Q fc1"
  using assms(1,2,5)
proof (induction els arbitrary: fc0)
  case Nil
  then show ?case by simp
next
  case (Cons x xs)
  from Cons.prems(1) obtain fc' where x: "process_element i x fc0 = Val fc'"
    and xs: "for_each (process_element i) xs fc' = Val fc1"
    by (auto simp: andThen_Val_iff)
  show ?case
  proof (cases "e \<in> set xs")
    case True
    with Cons.IH [OF xs] Cons.prems(3) show ?thesis by simp
  next
    case False
    with Cons.prems(2) have "x = e" by simp
    with process_element_Val [OF x] name val have "assign_field (Str nm) v fc0 = Val fc'"
      by auto
    then have q: "Q fc'" by (rule set)
    show ?thesis
    proof (rule for_each_invariant [where Q = Q, OF xs _ q])
      fix e' n u fc fc''
      assume e': "e' \<in> set xs" "get_prop e' (ascii ''elementName'') = Val n"
        "read_value i e' = Val (Some u)" and fc: "Q fc"
        and a: "assign_field n u fc = Val fc''"
      show "Q fc''"
      proof (cases "n = Str nm")
        case True
        with e' Cons.prems(3) have "u = v" by auto
        with True a show ?thesis by (auto intro: set)
      next
        case False
        then show ?thesis using fc a by (rule stable)
      qed
    qed
  qed
qed

lemma modelled_number_small: "\<bar>m\<bar> \<le> 2 ^ 53 \<Longrightarrow> modelled_number m 0"
  by (simp add: modelled_number_def)

lemma less_decimal_0: "less_decimal i m 0 \<longleftrightarrow> int i < m"
  by (simp add: less_decimal_def)

lemma for_loop_step:
  "js_less i tc = Val True \<Longrightarrow>
   for_loop body tc i acc = andThen (body i) (\<lambda>x. for_loop body tc (Suc i) (acc @ [x]))"
  by (subst for_loop.simps) simp

lemma for_loop_done: "js_less i tc = Val False \<Longrightarrow> for_loop body tc i acc = Val acc"
  by (subst for_loop.simps) simp

lemmas fixture_defs = slot_def bare_slot_def element_def township_def document_def
  serving_def api_key_def
lemmas body_defs = forecast_at_def new_forecast_def time_entry_def forEach_js_def
  process_element_def read_value_def assign_field_def resolve_rain_def find_js_def
  name_is_def own_def add_str_def percent_def degrees_celsius_def
lemmas number_eval = digits.simps significand_def point_def show_number_def
  modelled_number_def Let_def

lemmas handler_defs = getTaitungWeather_def axios_get_def try_body_def locate_township_def
  normalize_township_def or_else_def catch_block_def for_loop_step for_loop_done
  modelled_number_small less_decimal_0

lemma get_prop_Val_any: "get_prop v k = Val u \<Longrightarrow> \<exists>u'. get_prop v k' = Val u'"
  by (cases v) simp_all

lemma locate_township_Val:
  assumes "locate_township data = Val tcd"
  shows "truthy tcd \<and> (\<exists>recs locs. get_prop data (ascii ''records'') = Val recs \<and>
           get_prop recs (ascii ''locations'') = Val locs)"
  using assms unfolding locate_township_def
  by (auto simp: andThen_Val_iff split: if_splits)

lemma handler_try_body:
  assumes "key \<noteq> []" and "upstream w = Fulfilled data"
  shows "fst (getTaitungWeather (Some key) w) =
    (case try_body data of
       Val resp \<Rightarrow> Responded resp
     | Ret resp \<Rightarrow> Responded resp
     | Thrown e \<Rightarrow> fst (catch_block e (w\<lparr>outbound := outbound w @ [(dataset_url, [(ascii ''Authorization'', key)])]\<rparr>))
     | Unmodelled \<Rightarrow> NotModelled)"
  using assms by (simp add: getTaitungWeather_def axios_get_def split: comp.splits)

lemma catch_block_500:
  "e = TypeError \<or> e = Error m \<Longrightarrow>
     fst (catch_block e w) = Responded (500, ErrorJson server_error retry_message)"
  by (auto simp: catch_block_def Let_def)

lemma missing_wx_throws:
  assumes tcd: "locate_township data = Val tcd"
    and nowx: "\<forall>els. get_prop tcd (ascii ''weatherElement'') = Val (Arr els) \<longrightarrow>
       (\<forall>e \<in> set els. name_is (ascii ''elementName'') (ascii ''Wx'') e \<noteq> Val True)"
  shows "normalize_township data tcd = Thrown (Error missing_wx) \<or>
         normalize_township data tcd = Thrown TypeError"
proof -
  from locate_township_Val [OF tcd] obtain recs locs where t: "truthy tcd"
    and recs: "get_prop data (ascii ''records'') = Val recs"
    and locs: "get_prop recs (ascii ''locations'') = Val locs" by blast
  from get_prop_truthy [OF t] obtain name where
    name: "get_prop tcd (ascii ''locationName'') = Val name" by blast
  from get_prop_truthy [OF t] obtain wes where
    wes: "get_prop tcd (ascii ''weatherElement'') = Val wes" by blast
  from get_prop_Val_any [OF locs] obtain issue where
    issue: "get_prop recs (ascii ''issueTime'') = Val issue" by blast
  let ?find = "find_js wes (name_is (ascii ''elementName'') (ascii ''Wx''))"
  have "?find = Val Undefined \<or> ?find = Thrown TypeError"
  proof (cases wes)
    case (Arr els)
    from find_first_cases [of "ascii ''elementName''" "ascii ''Wx''" els] show ?thesis
    proof
      assume "\<exists>x. find_first (name_is (ascii ''elementName'') (ascii ''Wx'')) els = Val x"
      then obtain x where x: "find_first (name_is (ascii ''elementName'') (ascii ''Wx'')) els = Val x" ..
      from find_first_Val [OF x] nowx wes Arr have "x = Undefined"
        by (metis nth_mem)
      with x Arr show ?thesis by (simp add: find_js_def)
    next
      assume "find_first (name_is (ascii ''elementName'') (ascii ''Wx'')) els = Thrown TypeError"
      with Arr show ?thesis by (simp add: find_js_def)
    qed
  qed (simp_all add: find_js_def)
  with name recs issue wes show ?thesis
    by (auto simp: normalize_township_def)
qed

lemma configured_key_calls_upstream:
  "key \<noteq> [] \<Longrightarrow>
     outbound (snd (getTaitungWeather (Some key) w)) =
       outbound w @ [(dataset_url, [(ascii ''Authorization'', key)])]"
  by (auto simp: getTaitungWeather_def axios_get_def catch_block_def Let_def
      split: comp.splits upstream_reply.splits exn.splits option.splits prod.splits)

lemma locate_township_list:
  assumes recs: "get_prop data (ascii ''records'') = Val recs"
    and locs: "get_prop recs (ascii ''locations'') = Val locs"
    and grp: "get_index locs 0 = Val grp"
    and towns: "get_prop grp (ascii ''location'') = Val (Arr towns)"
  shows "locate_township data =
     andThen (find_first (name_is (ascii ''locationName'') taitung_city) towns) (\<lambda>found.
     andThen (if truthy found then Val found else get_index (Arr towns) 0) (\<lambda>taitungCityData.
     if \<not> truthy taitungCityData then Ret (404, ErrorJson no_data no_city_message)
     else Val taitungCityData))"
proof -
  from get_prop_Arr_Obj [OF towns] have "truthy grp" by auto
  with recs locs grp towns show ?thesis
    by (simp add: locate_township_def find_js_def)
qed

lemma success_city:
  assumes "upstream w = Fulfilled data"
    and "fst (getTaitungWeather key w) = Responded (st, SuccessJson wd)"
    and "locate_township data = Val tcd"
  shows "get_prop tcd (ascii ''locationName'') = Val (city wd)"
proof -
  from handler_success [OF assms(2)] assms(1)
  have "try_body data = Val (st, SuccessJson wd)" by auto
  with assms(3) have "normalize_township data tcd = Val (st, SuccessJson wd)"
    by (simp add: try_body_def)
  from normalize_township_Val [OF this] show ?thesis by simp
qed

lemma document_path:
  "get_prop (document towns) (ascii ''records'') =
     Val (Obj [(ascii ''locations'', Arr [Obj [(ascii ''location'', Arr towns)]])])"
  "get_prop (Obj [(ascii ''locations'', Arr [Obj [(ascii ''location'', Arr towns)]])])
     (ascii ''locations'') = Val (Arr [Obj [(ascii ''location'', Arr towns)]])"
  "get_index (Arr [Obj [(ascii ''location'', Arr towns)]]) 0 =
     Val (Obj [(ascii ''location'', Arr towns)])"
  "get_prop (Obj [(ascii ''location'', Arr towns)]) (ascii ''location'') = Val (Arr towns)"
  by (simp_all add: document_def own_def)

lemma success_forecast:
  assumes up: "upstream w = Fulfilled data"
    and ok: "fst (getTaitungWeather key w) = Responded (st, SuccessJson wd)"
    and tcd: "locate_township data = Val tcd"
    and wes: "get_prop tcd (ascii ''weatherElement'') = Val (Arr els)"
    and i: "i < length (forecasts wd)"
  shows "\<exists>wx fc0 fc1. new_forecast wx i = Val fc0 \<and>
           for_each (process_element i) els fc0 = Val fc1 \<and>
           resolve_rain (Arr els) i fc1 = Val (forecasts wd ! i)"
proof -
  from handler_success [OF ok] up
  have "try_body data = Val (st, SuccessJson wd)" by auto
  with tcd have "normalize_township data tcd = Val (st, SuccessJson wd)"
    by (simp add: try_body_def)
  from normalize_township_Val [OF this] wes i obtain wx where
    "forecast_at (Arr els) wx i = Val (forecasts wd ! i)" by auto
  from forecast_at_Val [OF this] show ?thesis by auto
qed

lemma resolve_rain_others:
  "resolve_rain wes i fc = Val f \<Longrightarrow>
     weather f = weather fc \<and> minTemp f = minTemp fc \<and> maxTemp f = maxTemp fc \<and>
     comfort f = comfort fc \<and> windSpeed f = windSpeed fc"
  by (drule resolve_rain_Val) auto

lemma add_str_Val: "add_str v suffix = Val u \<Longrightarrow> \<exists>s. to_string v = Val s \<and> u = Str (s @ suffix)"
  by (auto simp: add_str_def andThen_Val_iff)

lemma add_str_truthy: "add_str v percent = Val u \<Longrightarrow> truthy u"
  by (auto simp: add_str_def andThen_Val_iff percent_def ascii_def)

lemma add_str_Str [simp]: "add_str (Str s) suffix = Val (Str (s @ suffix))"
  by (simp add: add_str_def)

lemma resolve_rain_nonempty: "resolve_rain wes i fc = Val f \<Longrightarrow> rain f \<noteq> Str []"
  unfolding resolve_rain_def
  by (auto simp: andThen_Val_iff add_str_def percent_def ascii_def split: if_splits)

lemma resolve_rain_keeps: "truthy (rain fc) \<Longrightarrow> resolve_rain wes i fc = Val fc"
  by (simp add: resolve_rain_def)

lemma township_parts:
  "get_prop (township name els) (ascii ''weatherElement'') = Val (Arr els)"
  "get_prop (township name els) (ascii ''locationName'') = Val (Str name)"
  by (simp_all add: township_def own_def)

lemma locate_single_township:
  "locate_township (document [township taitung_city els]) = Val (township taitung_city els)"
  by (simp add: document_def township_def locate_township_def find_js_def name_is_def own_def)

lemma serving_upstream: "upstream (serving d) = Fulfilled d"
  by (simp add: serving_def)

lemmas element_eval = element_def slot_def bare_slot_def read_value_def time_entry_def own_def
  name_is_def find_js_def

lemma catch_block_world:
  "snd (catch_block e w) = w\<lparr>console := console w @ [e]\<rparr>"
  by (auto simp: catch_block_def Let_def split: exn.splits option.splits comp.splits)

lemma catch_block_response:
  "fst (catch_block e w') = fst (catch_block e w)"
  by (auto simp: catch_block_def Let_def split: exn.splits option.splits comp.splits)

lemma handler_upstream: "upstream (snd (getTaitungWeather key w)) = upstream w"
  by (auto simp: getTaitungWeather_def axios_get_def catch_block_world
      split: option.splits comp.splits upstream_reply.splits)

lemma handler_response_cong:
  assumes "upstream w' = upstream w"
  shows "fst (getTaitungWeather key w') = fst (getTaitungWeather key w)"
proof (cases key)
  case None
  then show ?thesis by (simp add: getTaitungWeather_def)
next
  case (Some k)
  show ?thesis
  proof (cases "k = []")
    case True
    with Some show ?thesis by (simp add: getTaitungWeather_def)
  next
    case False
    show ?thesis
    proof (cases "upstream w")
      case (Fulfilled d)
      with assms Some False show ?thesis
        by (auto simp: getTaitungWeather_def axios_get_def split: comp.splits
            intro: catch_block_response)
    next
      case (Rejected r)
      with assms Some False show ?thesis
        by (auto simp: getTaitungWeather_def axios_get_def intro: catch_block_response)
    qed
  qed
qed

lemma forecast_count:
  assumes up: "upstream w = Fulfilled data"
    and ok: "fst (getTaitungWeather key w) = Responded (st, SuccessJson wd)"
    and tcd: "locate_township data = Val tcd"
    and wes: "get_prop tcd (ascii ''weatherElement'') = Val wes"
    and wx: "find_js wes (name_is (ascii ''elementName'') (ascii ''Wx'')) = Val wx"
    and ts: "get_prop wx (ascii ''time'') = Val (Arr ts)"
  shows "length (forecasts wd) = length ts"
proof -
  from handler_success [OF ok] up
  have "try_body data = Val (st, SuccessJson wd)" by auto
  with tcd have "normalize_township data tcd = Val (st, SuccessJson wd)"
    by (simp add: try_body_def)
  from normalize_township_Val [OF this] wes wx ts
  have "length (forecasts wd) = iterations (Num (int (length ts)) 0)" by auto
  then show ?thesis by (simp add: iterations_def)
qed

lemma rain_default_zero:
  assumes up: "upstream w = Fulfilled data"
    and ok: "fst (getTaitungWeather key w) = Responded (st, SuccessJson wd)"
    and tcd: "locate_township data = Val tcd"
    and wes: "get_prop tcd (ascii ''weatherElement'') = Val (Arr els)"
    and i: "i < length (forecasts wd)"
    and none: "\<forall>e \<in> set els. get_prop e (ascii ''elementName'') = Val (Str (ascii ''PoP6h'')) \<longrightarrow>
             read_value i e = Val None"
    and p: "find_js (Arr els) (name_is (ascii ''elementName'') (ascii ''PoP12h'')) = Val p"
    and absent: "\<not> truthy p \<or> (\<exists>entry. time_entry p i = Val entry \<and> \<not> truthy entry)"
  shows "rain (forecasts wd ! i) = Str (ascii ''0%'')"
proof -
  from success_forecast [OF up ok tcd wes i] obtain wx fc0 fc1 where
    new: "new_forecast wx i = Val fc0" and
    run: "for_each (process_element i) els fc0 = Val fc1" and
    res: "resolve_rain (Arr els) i fc1 = Val (forecasts wd ! i)" by blast
  have "rain fc1 = Str []"
    by (rule for_each_none [where Q = "\<lambda>fc. rain fc = Str []", OF run none])
      (auto simp: assign_field_def andThen_Val_iff new_forecast_Val [OF new] split: if_splits)
  with p absent
  have "resolve_rain (Arr els) i fc1 = Val (fc1\<lparr>rain := Str (ascii ''0%'')\<rparr>)"
    by (auto simp: resolve_rain_def)
  with res have "forecasts wd ! i = fc1\<lparr>rain := Str (ascii ''0%'')\<rparr>" by simp
  then show ?thesis by simp
qed

subsection \<open>The request does not change what the upstream holds\<close>

lemma repeated_request_same_response:
  "upstream (snd (getTaitungWeather key w)) = upstream w \<and>
   fst (getTaitungWeather key (snd (getTaitungWeather key w))) = fst (getTaitungWeather key w)"
  using handler_upstream [of key w] handler_response_cong [OF handler_upstream, of key key w]
  by simp

subsection \<open>The \<open>try\<close> block changes no cell it did not allocate\<close>

lemma hthen_simps [simp]:
  "m h = (Val x, h') \<Longrightarrow> hthen m f h = f x h'"
  "m h = (Ret r, h') \<Longrightarrow> hthen m f h = (Ret r, h')"
  "m h = (Thrown e, h') \<Longrightarrow> hthen m f h = (Thrown e, h')"
  "m h = (Unmodelled, h') \<Longrightarrow> hthen m f h = (Unmodelled, h')"
  by (simp_all add: hthen_def)

lemma only_cell_reading [simp]: "only_cell a (reading f)"
  by (simp add: only_cell_def reading_def)

lemma only_cell_return [simp]: "only_cell a (\<lambda>h. (r, h))"
  by (simp add: only_cell_def)

lemma only_cell_set_prop [simp]: "only_cell a (set_prop a k v)"
  by (auto simp: only_cell_def set_prop_def split: option.splits cell.splits)

lemma only_cell_hthen:
  assumes "only_cell a m" and "\<And>x. only_cell a (f x)"
  shows "only_cell a (hthen m f)"
  unfolding only_cell_def
proof (intro allI impI)
  fix h r h'
  assume run: "hthen m f h = (r, h')"
  obtain r1 h1 where m: "m h = (r1, h1)" by (cases "m h")
  with assms(1) have h1: "length h1 = length h" "\<forall>b. b \<noteq> a \<longrightarrow> h1 ! b = h ! b"
    by (auto simp: only_cell_def)
  show "length h' = length h \<and> (\<forall>b. b \<noteq> a \<longrightarrow> h' ! b = h ! b)"
  proof (cases r1)
    case (Val x)
    with run m have "f x h1 = (r, h')" by simp
    with assms(2) [of x] have "length h' = length h1" "\<forall>b. b \<noteq> a \<longrightarrow> h' ! b = h1 ! b"
      by (auto simp: only_cell_def)
    with h1 show ?thesis by simp
  qed (use run m h1 in auto)
qed

lemma only_cell_assign_field: "only_cell a (h_assign_field depth name v a)"
  by (simp add: h_assign_field_def only_cell_hthen)

lemma only_cell_process_element: "only_cell a (h_process_element depth i a elt)"
  by (auto simp: h_process_element_def only_cell_assign_field split: option.splits
      intro!: only_cell_hthen)

lemma only_cell_for_each:
  "(\<And>x. only_cell a (f x)) \<Longrightarrow> only_cell a (h_for_each f xs j k)"
  by (induction k arbitrary: j) (auto intro!: only_cell_hthen)

lemma only_cell_forEach: "(\<And>x. only_cell a (f x)) \<Longrightarrow> only_cell a (h_forEach xs f)"
  by (auto simp: h_forEach_def only_cell_for_each intro!: only_cell_hthen)

lemma only_cell_resolve_rain: "only_cell a (h_resolve_rain depth wes i a)"
  by (auto simp: h_resolve_rain_def intro!: only_cell_hthen)

lemma h_new_forecast_run:
  assumes "h_new_forecast wx i h = (r, h')"
  shows "(h' = h \<and> (\<forall>a. r \<noteq> Val a)) \<or> (\<exists>c. r = Val (length h) \<and> h' = h @ [c])"
proof -
  have rd: "\<And>f g. hthen (reading f) g h = (case f h of Val x \<Rightarrow> g x h | Ret q \<Rightarrow> (Ret q, h)
      | Thrown e \<Rightarrow> (Thrown e, h) | Unmodelled \<Rightarrow> (Unmodelled, h))"
    by (simp add: hthen_def reading_def split: comp.splits)
  from assms show ?thesis
    unfolding h_new_forecast_def rd
    by (auto simp: alloc_def split: comp.splits)
qed

lemma push_run:
  assumes "push t v h = (r, h')"
  shows "length h' = length h \<and>
    (case t of
       HRef a \<Rightarrow> (\<forall>b. b \<noteq> a \<longrightarrow> h' ! b = h ! b) \<and>
         ((\<exists>xs. cell_at h a = Some (ArrCell xs)) \<longrightarrow> (\<exists>ys. h' ! a = ArrCell ys))
     | _ \<Rightarrow> h' = h)"
  using assms
  by (auto simp: push_def cell_at_def split: hval.splits option.splits cell.splits if_splits)

lemma hthen_reading:
  "hthen (reading f) g h =
     (case f h of Val x \<Rightarrow> g x h | Ret q \<Rightarrow> (Ret q, h) | Thrown e \<Rightarrow> (Thrown e, h)
      | Unmodelled \<Rightarrow> (Unmodelled, h))"
  by (simp add: hthen_def reading_def split: comp.splits)

lemma hthen_run:
  assumes "hthen m f h = (r, h')"
  shows "(\<exists>x h1. m h = (Val x, h1) \<and> f x h1 = (r, h')) \<or>
         (\<exists>r1. m h = (r1, h') \<and> (\<forall>x. r1 \<noteq> Val x))"
proof -
  obtain r1 h1 where m: "m h = (r1, h1)" by (cases "m h")
  with assms show ?thesis by (cases r1) auto
qed

lemma only_cellD:
  "only_cell a m \<Longrightarrow> m h = (r, h') \<Longrightarrow>
     length h' = length h \<and> (\<forall>b. b \<noteq> a \<longrightarrow> h' ! b = h ! b)"
  by (simp add: only_cell_def)

lemma h_round_frame:
  assumes run: "h_round depth (HRef wd) wes wx i h = (r, h')"
    and wd: "wd < length h" "h ! wd = ObjCell kvs" "h_own kvs (ascii ''forecasts'') = HRef fa"
    and fa: "fa < length h" "h ! fa = ArrCell xs"
  shows "length h \<le> length h' \<and> (\<forall>a < length h. a \<noteq> fa \<longrightarrow> h' ! a = h ! a) \<and>
         (\<exists>ys. h' ! fa = ArrCell ys)"
proof -
  let ?rest = "\<lambda>forecast.
     hthen (h_forEach wes (h_process_element depth i forecast)) (\<lambda>_.
     hthen (h_resolve_rain depth wes i forecast) (\<lambda>_.
     hthen (reading (\<lambda>h. h_get_prop h (HRef wd) (ascii ''forecasts''))) (\<lambda>forecasts.
     push forecasts (HRef forecast))))"
  let ?mid = "\<lambda>forecast.
     hthen (h_forEach wes (h_process_element depth i forecast)) (\<lambda>_.
     h_resolve_rain depth wes i forecast)"
  from run have run': "hthen (h_new_forecast wx i) ?rest h = (r, h')"
    by (simp add: h_round_def)
  from hthen_run [OF run'] show ?thesis
  proof
    assume "\<exists>r1. h_new_forecast wx i h = (r1, h') \<and> (\<forall>x. r1 \<noteq> Val x)"
    then obtain r1 where "h_new_forecast wx i h = (r1, h')" "\<forall>x. r1 \<noteq> Val x" by blast
    with h_new_forecast_run [of wx i h r1 h'] fa show ?thesis by auto
  next
    assume "\<exists>x h1. h_new_forecast wx i h = (Val x, h1) \<and> ?rest x h1 = (r, h')"
    then obtain f h1 where new: "h_new_forecast wx i h = (Val f, h1)"
      and rest: "?rest f h1 = (r, h')" by blast
    from h_new_forecast_run [OF new] obtain c where f: "f = length h" and h1: "h1 = h @ [c]"
      by auto
    have oc: "only_cell f (h_forEach wes (h_process_element depth i f))"
      by (rule only_cell_forEach) (rule only_cell_process_element)
    from hthen_run [OF rest] show ?thesis
    proof
      assume "\<exists>r1. h_forEach wes (h_process_element depth i f) h1 = (r1, h') \<and>
        (\<forall>x. r1 \<noteq> Val x)"
      then obtain r1 where "h_forEach wes (h_process_element depth i f) h1 = (r1, h')" by blast
      from only_cellD [OF oc this] f h1 fa show ?thesis
        by (auto simp: nth_append)
    next
      assume "\<exists>x h2. h_forEach wes (h_process_element depth i f) h1 = (Val x, h2) \<and>
        hthen (h_resolve_rain depth wes i f) (\<lambda>_.
          hthen (reading (\<lambda>h. h_get_prop h (HRef wd) (ascii ''forecasts''))) (\<lambda>forecasts.
          push forecasts (HRef f))) h2 = (r, h')"
      then obtain u h2 where fe: "h_forEach wes (h_process_element depth i f) h1 = (Val u, h2)"
        and rest2: "hthen (h_resolve_rain depth wes i f) (\<lambda>_.
          hthen (reading (\<lambda>h. h_get_prop h (HRef wd) (ascii ''forecasts''))) (\<lambda>forecasts.
          push forecasts (HRef f))) h2 = (r, h')" by blast
      from only_cellD [OF oc fe] have h2: "length h2 = length h1"
        "\<forall>b. b \<noteq> f \<longrightarrow> h2 ! b = h1 ! b" by simp_all
      from hthen_run [OF rest2] show ?thesis
      proof
        assume "\<exists>r1. h_resolve_rain depth wes i f h2 = (r1, h') \<and> (\<forall>x. r1 \<noteq> Val x)"
        then obtain r1 where "h_resolve_rain depth wes i f h2 = (r1, h')" by blast
        from only_cellD [OF only_cell_resolve_rain this] h2 f h1 fa
        show ?thesis by (auto simp: nth_append)
      next
        assume "\<exists>x h3. h_resolve_rain depth wes i f h2 = (Val x, h3) \<and>
          hthen (reading (\<lambda>h. h_get_prop h (HRef wd) (ascii ''forecasts''))) (\<lambda>forecasts.
            push forecasts (HRef f)) h3 = (r, h')"
        then obtain u' h3 where rr: "h_resolve_rain depth wes i f h2 = (Val u', h3)"
          and rest3: "hthen (reading (\<lambda>h. h_get_prop h (HRef wd) (ascii ''forecasts'')))
            (\<lambda>forecasts. push forecasts (HRef f)) h3 = (r, h')" by blast
        from only_cellD [OF only_cell_resolve_rain rr] have h3: "length h3 = length h2"
          "\<forall>b. b \<noteq> f \<longrightarrow> h3 ! b = h2 ! b" by simp_all
        have same: "\<forall>a < length h. h3 ! a = h ! a" "length h3 = Suc (length h)"
          using h3 h2 f h1 by (auto simp: nth_append)
        with wd have "h_get_prop h3 (HRef wd) (ascii ''forecasts'') = Val (HRef fa)"
          by (simp add: cell_at_def)
        with rest3 have p: "push (HRef fa) (HRef f) h3 = (r, h')"
          by (simp add: hthen_reading)
        from same fa have "cell_at h3 fa = Some (ArrCell xs)" by (simp add: cell_at_def)
        with push_run [OF p] have "length h' = length h3"
          "\<forall>b. b \<noteq> fa \<longrightarrow> h' ! b = h3 ! b" "\<exists>ys. h' ! fa = ArrCell ys"
          by auto
        with same show ?thesis by auto
      qed
    qed
  qed
qed

lemma h_for_loop_frame:
  assumes "h_for_loop (h_round depth (HRef wd) wes wx) tc i h = (r, h')"
    and "wd < length h" "h ! wd = ObjCell kvs" "h_own kvs (ascii ''forecasts'') = HRef fa"
    and "fa < length h" "h ! fa = ArrCell xs" "fa \<noteq> wd"
  shows "length h \<le> length h' \<and> (\<forall>a < length h. a \<noteq> fa \<longrightarrow> h' ! a = h ! a)"
  using assms
proof (induction "h_round depth (HRef wd) wes wx" tc i h arbitrary: xs
    rule: h_for_loop.induct)
  case (1 tc i h)
  let ?body = "h_round depth (HRef wd) wes wx"
  show ?case
  proof (cases "h_less h i tc")
    case (Val b)
    show ?thesis
    proof (cases b)
      case False
      with Val "1.prems"(1) show ?thesis by (subst (asm) h_for_loop.simps) simp
    next
      case True
      with Val "1.prems"(1)
      have run: "hthen (?body i) (\<lambda>_. h_for_loop ?body tc (Suc i)) h = (r, h')"
        by (subst (asm) h_for_loop.simps) simp
      from hthen_run [OF run] show ?thesis
      proof
        assume "\<exists>r1. ?body i h = (r1, h') \<and> (\<forall>x. r1 \<noteq> Val x)"
        then obtain r1 where "?body i h = (r1, h')" by blast
        from h_round_frame [OF this "1.prems"(2-6)] show ?thesis by blast
      next
        assume "\<exists>x h1. ?body i h = (Val x, h1) \<and> h_for_loop ?body tc (Suc i) h1 = (r, h')"
        then obtain u h1 where round: "?body i h = (Val u, h1)"
          and loop: "h_for_loop ?body tc (Suc i) h1 = (r, h')" by blast
        from h_round_frame [OF round "1.prems"(2-6)]
        have len: "length h \<le> length h1"
          and same: "\<forall>a < length h. a \<noteq> fa \<longrightarrow> h1 ! a = h ! a"
          and arr: "\<exists>ys. h1 ! fa = ArrCell ys" by blast+
        from arr obtain ys where ys: "h1 ! fa = ArrCell ys" ..
        from same "1.prems"(2,3,7) have wd1: "h1 ! wd = ObjCell kvs" by simp
        from "1.hyps" [OF Val True loop _ wd1 "1.prems"(4) _ ys "1.prems"(7)] len "1.prems"(2,5)
        have "length h1 \<le> length h'" "\<forall>a < length h1. a \<noteq> fa \<longrightarrow> h' ! a = h1 ! a"
          by auto
        with len same show ?thesis by auto
      qed
    qed
  qed (use "1.prems"(1) in \<open>simp_all add: h_for_loop.simps\<close>)
qed

lemma h_loop_then_return_frame:
  assumes run: "hthen (h_for_loop (h_round depth (HRef wd) wes wx) tc 0)
      (\<lambda>_ h. (Val (200, HRef wd), h)) h = (r, h')"
    and inv: "wd < length h" "h ! wd = ObjCell kvs" "h_own kvs (ascii ''forecasts'') = HRef fa"
      "fa < length h" "h ! fa = ArrCell xs" "fa \<noteq> wd"
  shows "length h \<le> length h' \<and> (\<forall>a < length h. a \<noteq> fa \<longrightarrow> h' ! a = h ! a)"
  using hthen_run [OF run]
proof
  assume "\<exists>x h1. h_for_loop (h_round depth (HRef wd) wes wx) tc 0 h = (Val x, h1) \<and>
    (Val (200, HRef wd), h1) = (r, h')"
  then obtain x where "h_for_loop (h_round depth (HRef wd) wes wx) tc 0 h = (Val x, h')"
    by auto
  from h_for_loop_frame [OF this inv] show ?thesis .
next
  assume "\<exists>r1. h_for_loop (h_round depth (HRef wd) wes wx) tc 0 h = (r1, h') \<and>
    (\<forall>x. r1 \<noteq> Val x)"
  then obtain r1 where "h_for_loop (h_round depth (HRef wd) wes wx) tc 0 h = (r1, h')"
    by blast
  from h_for_loop_frame [OF this inv] show ?thesis .
qed

lemma h_normalize_frame:
  assumes run: "h_normalize_township depth data tcd h = (r, h')"
  shows "length h \<le> length h' \<and> (\<forall>a < length h. h' ! a = h ! a)"
proof -
  let ?fa = "length h" and ?wd = "Suc (length h)"
  have tail: "length h \<le> length h' \<and> (\<forall>a < length h. h' ! a = h ! a)"
    if "hthen (h_for_loop (h_round depth (HRef ?wd) wes wx) tc 0)
      (\<lambda>_ h. (Val (200, HRef ?wd), h)) (h @ [ArrCell [], ObjCell kvs]) = (r, h')"
      and "h_own kvs (ascii ''forecasts'') = HRef ?fa" for wes wx tc kvs
  proof -
    from h_loop_then_return_frame [OF that(1), of kvs ?fa "[]"] that(2)
    have "length (h @ [ArrCell [], ObjCell kvs]) \<le> length h' \<and>
      (\<forall>a < length (h @ [ArrCell [], ObjCell kvs]). a \<noteq> ?fa \<longrightarrow>
        h' ! a = (h @ [ArrCell [], ObjCell kvs]) ! a)"
      by (simp add: nth_append)
    then show ?thesis by (auto simp: nth_append)
  qed
  from run show ?thesis
    unfolding h_normalize_township_def hthen_reading
    by (auto simp: alloc_def h_own_def nth_append split: comp.splits if_splits
        dest!: tail)
qed

theorem h_try_body_frame:
  assumes "h_try_body depth data h = (r, h')"
  shows "length h \<le> length h' \<and> (\<forall>a < length h. h' ! a = h ! a)"
  using assms unfolding h_try_body_def hthen_reading
  by (auto split: comp.splits dest: h_normalize_frame)

subsection \<open>The \<open>try\<close> block on the heap computes what it computes on trees\<close>

lemma those_map_Some_iff:
  "those (map f xs) = Some ys \<longleftrightarrow> list_all2 (\<lambda>x y. f x = Some y) xs ys"
proof (induction xs arbitrary: ys)
  case Nil
  show ?case by auto
next
  case (Cons x xs)
  show ?case
  proof (cases "f x")
    case None
    then show ?thesis by (auto simp: list_all2_Cons1)
  next
    case (Some y)
    with Cons show ?thesis by (auto simp: list_all2_Cons1)
  qed
qed

lemma tree_of_Suc: "tree_of n h x = Some t \<Longrightarrow> tree_of (Suc n) h x = Some t"
proof (induction n arbitrary: x t)
  case 0
  then show ?case by (cases x) simp_all
next
  case (Suc n)
  show ?case
  proof (cases x)
    case (HRef a)
    show ?thesis
    proof (cases "cell_at h a")
      case None
      with Suc.prems HRef show ?thesis by simp
    next
      case (Some c)
      show ?thesis
      proof (cases c)
        case (ArrCell xs)
        with Suc.prems HRef Some obtain ts where
          ts: "list_all2 (\<lambda>x y. tree_of n h x = Some y) xs ts" and t: "t = Arr ts"
          by (auto simp: those_map_Some_iff)
        from ts have "list_all2 (\<lambda>x y. tree_of (Suc n) h x = Some y) xs ts"
          by (rule list_all2_mono) (rule Suc.IH)
        with t HRef Some ArrCell show ?thesis by (simp add: those_map_Some_iff)
      next
        case (ObjCell kvs)
        with Suc.prems HRef Some obtain kts where
          kts: "list_all2 (\<lambda>kx ky. (case kx of (k, x) \<Rightarrow> map_option (Pair k) (tree_of n h x)) = Some ky)
            kvs kts" and t: "t = Obj kts"
          by (auto simp: those_map_Some_iff)
        from kts have "list_all2 (\<lambda>kx ky.
            (case kx of (k, x) \<Rightarrow> map_option (Pair k) (tree_of (Suc n) h x)) = Some ky) kvs kts"
          by (rule list_all2_mono) (auto dest: Suc.IH)
        with t HRef Some ObjCell show ?thesis by (simp add: those_map_Some_iff)
      qed
    qed
  qed (use Suc.prems in simp_all)
qed

text \<open>The heap \<open>h\<close> extends \<open>h0\<close>: the cells of \<open>h0\<close> are there, unchanged.\<close>

lemma tree_of_HRef:
  "tree_of n h (HRef a) = Some t \<Longrightarrow> a < length h \<and> (\<exists>m. n = Suc m)"
  by (cases n) (auto simp: cell_at_def split: if_splits)

lemma tree_of_extend:
  assumes ext: "length h0 \<le> length h" "\<forall>a < length h0. h ! a = h0 ! a"
  shows "tree_of n h0 x = Some t \<Longrightarrow> tree_of n h x = Some t"
proof (induction n arbitrary: x t)
  case 0
  then show ?case by (cases x) simp_all
next
  case (Suc n)
  show ?case
  proof (cases x)
    case (HRef a)
    with Suc.prems have "tree_of (Suc n) h0 (HRef a) = Some t" by simp
    from tree_of_HRef [OF this] have a: "a < length h0" by simp
    with ext have cell: "cell_at h a = cell_at h0 a" by (simp add: cell_at_def)
    show ?thesis
    proof (cases "h0 ! a")
      case (ArrCell xs)
      with Suc.prems HRef a obtain ts where
        ts: "list_all2 (\<lambda>x y. tree_of n h0 x = Some y) xs ts" and t: "t = Arr ts"
        by (auto simp: those_map_Some_iff cell_at_def)
      from ts have "list_all2 (\<lambda>x y. tree_of n h x = Some y) xs ts"
        by (rule list_all2_mono) (rule Suc.IH)
      with t HRef cell a ArrCell show ?thesis by (simp add: those_map_Some_iff cell_at_def)
    next
      case (ObjCell kvs)
      with Suc.prems HRef a obtain kts where
        kts: "list_all2 (\<lambda>kx ky. (case kx of (k, x) \<Rightarrow> map_option (Pair k) (tree_of n h0 x)) = Some ky)
          kvs kts" and t: "t = Obj kts"
        by (auto simp: those_map_Some_iff cell_at_def)
      from kts have "list_all2 (\<lambda>kx ky.
          (case kx of (k, x) \<Rightarrow> map_option (Pair k) (tree_of n h x)) = Some ky) kvs kts"
        by (rule list_all2_mono) (auto dest: Suc.IH)
      with t HRef cell a ObjCell show ?thesis by (simp add: those_map_Some_iff cell_at_def)
    qed
  qed (use Suc.prems in simp_all)
qed

lemma tree_of_cell:
  assumes "tree_of n h (HRef a) = Some t"
  obtains m xs ts where "n = Suc m" "a < length h" "h ! a = ArrCell xs" "t = Arr ts"
      "list_all2 (\<lambda>x u. tree_of m h x = Some u) xs ts"
  | m kvs kts where "n = Suc m" "a < length h" "h ! a = ObjCell kvs" "t = Obj kts"
      "list_all2 (\<lambda>(k, x) (k', u). k' = k \<and> tree_of m h x = Some u) kvs kts"
proof -
  from tree_of_HRef [OF assms] obtain m where n: "n = Suc m" and a: "a < length h" by blast
  show ?thesis
  proof (cases "h ! a")
    case (ArrCell xs)
    with assms n a obtain ts where "t = Arr ts"
      "list_all2 (\<lambda>x u. tree_of m h x = Some u) xs ts"
      by (auto simp: those_map_Some_iff cell_at_def)
    with n a ArrCell that(1) show ?thesis by blast
  next
    case (ObjCell kvs)
    with assms n a obtain kts where t: "t = Obj kts" and
      l: "list_all2 (\<lambda>kx ky. (case kx of (k, x) \<Rightarrow> map_option (Pair k) (tree_of m h x)) = Some ky)
          kvs kts"
      by (auto simp: those_map_Some_iff cell_at_def)
    from l have "list_all2 (\<lambda>(k, x) (k', u). k' = k \<and> tree_of m h x = Some u) kvs kts"
      by (rule list_all2_mono) auto
    with n a ObjCell t that(2) show ?thesis by blast
  qed
qed

lemma own_related:
  assumes "list_all2 (\<lambda>(k, x) (k', u). k' = k \<and> tree_of m h x = Some u) kvs kts"
  shows "tree_of m h (h_own kvs k) = Some (own kts k)"
  using assms
proof (induction rule: list_all2_induct)
  case Nil
  show ?case by (simp add: h_own_def own_def)
next
  case (Cons kx kxs ky kys)
  then show ?case by (cases kx; cases ky) (auto simp: h_own_def own_def)
qed

lemma tree_of_prim:
  "tree_of n h HUndefined = Some t \<longleftrightarrow> t = Undefined"
  "tree_of n h HNull = Some t \<longleftrightarrow> t = Null"
  "tree_of n h (HBool b) = Some t \<longleftrightarrow> t = Bool b"
  "tree_of n h (HNum m e) = Some t \<longleftrightarrow> t = Num m e"
  "tree_of n h (HStr s) = Some t \<longleftrightarrow> t = Str s"
  by auto

text \<open>
  From here on \<open>h0\<close> is the heap that holds the document, \<open>h\<close> a heap that extends it,
  and \<open>d\<close> the depth to which the document is followed.
\<close>

lemma h_get_prop_refines:
  assumes ext: "length h0 \<le> length h" "\<forall>a < length h0. h ! a = h0 ! a"
    and x: "tree_of d h0 x = Some t"
  shows "rel_comp (\<lambda>y u. tree_of d h0 y = Some u) (h_get_prop h x k) (get_prop t k)"
proof (cases x)
  case (HRef a)
  from x HRef have t: "tree_of d h0 (HRef a) = Some t" by simp
  from t show ?thesis
  proof (cases rule: tree_of_cell)
    case (1 m xs ts)
    with ext have "cell_at h a = Some (ArrCell xs)" by (simp add: cell_at_def)
    moreover from 1 have "length xs = length ts" by (simp add: list_all2_lengthD)
    ultimately show ?thesis using HRef 1 by simp
  next
    case (2 m kvs kts)
    with ext have "cell_at h a = Some (ObjCell kvs)" by (simp add: cell_at_def)
    moreover from own_related [OF 2(5)] 2(1)
    have "tree_of d h0 (h_own kvs k) = Some (own kts k)" by (simp add: tree_of_Suc)
    ultimately show ?thesis using HRef 2 by simp
  qed
qed (use x in auto)

lemma h_get_index_refines:
  assumes ext: "length h0 \<le> length h" "\<forall>a < length h0. h ! a = h0 ! a"
    and x: "tree_of d h0 x = Some t"
  shows "rel_comp (\<lambda>y u. tree_of d h0 y = Some u) (h_get_index h x i) (get_index t i)"
proof (cases x)
  case (HRef a)
  from x HRef have t: "tree_of d h0 (HRef a) = Some t" by simp
  from t show ?thesis
  proof (cases rule: tree_of_cell)
    case (1 m xs ts)
    with ext have c: "cell_at h a = Some (ArrCell xs)" by (simp add: cell_at_def)
    from 1 have len: "length xs = length ts" by (simp add: list_all2_lengthD)
    show ?thesis
    proof (cases "i < length xs")
      case True
      from list_all2_nthD [OF 1(5) True] have "tree_of m h0 (xs ! i) = Some (ts ! i)" .
      with 1(1) have "tree_of d h0 (xs ! i) = Some (ts ! i)" by (simp add: tree_of_Suc)
      with True len c HRef 1 show ?thesis by simp
    next
      case False
      with len c HRef 1 show ?thesis by simp
    qed
  next
    case (2 m kvs kts)
    with ext have "cell_at h a = Some (ObjCell kvs)" by (simp add: cell_at_def)
    moreover from own_related [OF 2(5)] 2(1)
    have "tree_of d h0 (h_own kvs (digits i)) = Some (own kts (digits i))"
      by (simp add: tree_of_Suc)
    ultimately show ?thesis using HRef 2 by simp
  qed
qed (use x in auto)

lemma h_truthy_refines: "tree_of d h0 x = Some t \<Longrightarrow> h_truthy x = truthy t"
proof (cases x)
  case (HRef a)
  assume "tree_of d h0 x = Some t"
  with HRef have "tree_of d h0 (HRef a) = Some t" by simp
  then show ?thesis using HRef by (cases rule: tree_of_cell) simp_all
qed auto

lemma is_string_refines: "tree_of d h0 x = Some t \<Longrightarrow> x = HStr s \<longleftrightarrow> t = Str s"
proof (cases x)
  case (HRef a)
  assume "tree_of d h0 x = Some t"
  with HRef have "tree_of d h0 (HRef a) = Some t" by simp
  then show ?thesis using HRef by (cases rule: tree_of_cell) simp_all
qed auto

lemma those_map_related:
  "list_all2 (\<lambda>x y. f x = Some (g y)) xs ys \<Longrightarrow> those (map f xs) = Some (map g ys)"
  by (simp add: those_map_Some_iff list_all2_map2)

lemma map_related:
  "list_all2 (\<lambda>x y. f x = g y) xs ys \<Longrightarrow> map f xs = map g ys"
  by (induction rule: list_all2_induct) simp_all

lemma map_of_related:
  assumes "list_all2 (\<lambda>(k, x) (k', u). k' = k \<and> tree_of m h x = Some u) kvs kts"
  shows "map_of kvs k = None \<longleftrightarrow> map_of kts k = None"
  using assms
proof (induction rule: list_all2_induct)
  case Nil
  show ?case by simp
next
  case (Cons kx kxs ky kys)
  then show ?case by (cases kx; cases ky) auto
qed

lemma h_to_string_refines:
  assumes ext: "length h0 \<le> length h" "\<forall>a < length h0. h ! a = h0 ! a"
  shows "tree_of n h0 x = Some t \<Longrightarrow> h_to_string n h x = to_string t"
proof (induction n arbitrary: x t)
  case 0
  then show ?case by (cases x) auto
next
  case (Suc n)
  show ?case
  proof (cases x)
    case (HRef a)
    with Suc.prems have "tree_of (Suc n) h0 (HRef a) = Some t" by simp
    then show ?thesis
    proof (cases rule: tree_of_cell)
      case (1 m xs ts)
      with ext have c: "cell_at h a = Some (ArrCell xs)" by (simp add: cell_at_def)
      from 1(5) have "list_all2 (\<lambda>x u.
          (if x = HUndefined \<or> x = HNull then Val [] else h_to_string n h x) =
          (if u = Undefined \<or> u = Null then Val [] else to_string u)) xs ts"
      proof (rule list_all2_mono)
        fix y u
        assume yu: "tree_of m h0 y = Some u"
        with 1(1) have "tree_of n h0 y = Some u" by simp
        then have "h_to_string n h y = to_string u" by (rule Suc.IH)
        moreover from yu have "y = HUndefined \<or> y = HNull \<longleftrightarrow> u = Undefined \<or> u = Null"
          by (cases y) (auto elim: tree_of_cell)
        ultimately show "(if y = HUndefined \<or> y = HNull then Val [] else h_to_string n h y) =
          (if u = Undefined \<or> u = Null then Val [] else to_string u)" by simp
      qed
      from map_related [OF this] c
      have "h_to_string (Suc n) h (HRef a) = to_string (Arr ts)"
        by simp
      with HRef 1(4) show ?thesis by simp
    next
      case (2 m kvs kts)
      with ext have "cell_at h a = Some (ObjCell kvs)" by (simp add: cell_at_def)
      with HRef 2(4) map_of_related [OF 2(5), of "ascii ''toString''"] show ?thesis by simp
    qed
  qed (use Suc.prems in auto)
qed

lemma extendsD: "extends h0 h \<Longrightarrow> length h0 \<le> length h"
  "extends h0 h \<Longrightarrow> \<forall>a < length h0. h ! a = h0 ! a"
  by (simp_all add: extends_def)

lemma andThen_rel:
  assumes "rel_comp R m m'" and "\<And>x y. R x y \<Longrightarrow> rel_comp S (f x) (f' y)"
  shows "rel_comp S (andThen m f) (andThen m' f')"
  using assms by (cases m; cases m') simp_all

lemma get_prop_rel:
  "extends h0 h \<Longrightarrow> denotes d h0 x t \<Longrightarrow>
     rel_comp (denotes d h0) (h_get_prop h x k) (get_prop t k)"
  using h_get_prop_refines [OF extendsD, of h0 h d x t k]
  by (simp add: denotes_def [abs_def])

lemma get_index_rel:
  "extends h0 h \<Longrightarrow> denotes d h0 x t \<Longrightarrow>
     rel_comp (denotes d h0) (h_get_index h x i) (get_index t i)"
  using h_get_index_refines [OF extendsD, of h0 h d x t i]
  by (simp add: denotes_def [abs_def])

lemma truthy_rel: "denotes d h0 x t \<Longrightarrow> h_truthy x = truthy t"
  by (simp add: denotes_def h_truthy_refines)

lemma is_string_rel: "denotes d h0 x t \<Longrightarrow> x = HStr s \<longleftrightarrow> t = Str s"
  by (simp add: denotes_def is_string_refines)

lemma denotes_Str [simp]: "denotes d h0 (HStr s) t \<longleftrightarrow> t = Str s"
  by (auto simp: denotes_def)

lemma add_str_rel:
  assumes "extends h0 h" "denotes d h0 v t"
  shows "rel_comp (denotes d h0) (h_add_str d h v suffix) (add_str t suffix)"
proof -
  from assms have "h_to_string d h v = to_string t"
    using h_to_string_refines [OF extendsD, of h0 h d v t] by (simp add: denotes_def)
  then show ?thesis by (cases "to_string t") (simp_all add: h_add_str_def add_str_def)
qed

lemma denotes_Undefined [simp]: "denotes d h0 HUndefined t \<longleftrightarrow> t = Undefined"
  by (auto simp: denotes_def)

lemma name_is_rel:
  assumes "extends h0 h" "denotes d h0 x t"
  shows "rel_comp (=) (h_name_is h k s x) (name_is k s t)"
  unfolding h_name_is_def name_is_def
  by (rule andThen_rel [OF get_prop_rel [OF assms]]) (simp add: is_string_rel)

lemma time_entry_rel:
  assumes "extends h0 h" "denotes d h0 x t"
  shows "rel_comp (denotes d h0) (h_time_entry h x i) (time_entry t i)"
  unfolding h_time_entry_def time_entry_def
  by (rule andThen_rel [OF get_prop_rel [OF assms]]) (rule get_index_rel [OF assms(1)])

lemma read_value_rel:
  assumes ext: "extends h0 h" and x: "denotes d h0 x t"
  shows "rel_comp (rel_option (denotes d h0)) (h_read_value h i x) (read_value i t)"
  unfolding h_read_value_def read_value_def
proof (rule andThen_rel [OF time_entry_rel [OF ext x]])
  fix e e'
  assume e: "denotes d h0 e e'"
  show "rel_comp (rel_option (denotes d h0))
     (if \<not> h_truthy e then Val None
      else andThen (h_get_prop h e (ascii ''parameter''))
            (\<lambda>parameter. if \<not> h_truthy parameter then Val None
               else andThen (h_get_prop h parameter (ascii ''parameterName''))
                     (\<lambda>v. Val (Some v))))
     (if \<not> truthy e' then Val None
      else andThen (get_prop e' (ascii ''parameter''))
            (\<lambda>parameter. if \<not> truthy parameter then Val None
               else andThen (get_prop parameter (ascii ''parameterName''))
                     (\<lambda>v. Val (Some v))))"
  proof (cases "truthy e'")
    case False
    with e show ?thesis by (simp add: truthy_rel)
  next
    case True
    have "rel_comp (rel_option (denotes d h0))
      (andThen (h_get_prop h e (ascii ''parameter''))
            (\<lambda>parameter. if \<not> h_truthy parameter then Val None
               else andThen (h_get_prop h parameter (ascii ''parameterName''))
                     (\<lambda>v. Val (Some v))))
      (andThen (get_prop e' (ascii ''parameter''))
            (\<lambda>parameter. if \<not> truthy parameter then Val None
               else andThen (get_prop parameter (ascii ''parameterName''))
                     (\<lambda>v. Val (Some v))))"
    proof (rule andThen_rel [OF get_prop_rel [OF ext e]])
      fix p p'
      assume p: "denotes d h0 p p'"
      show "rel_comp (rel_option (denotes d h0))
        (if \<not> h_truthy p then Val None
         else andThen (h_get_prop h p (ascii ''parameterName'')) (\<lambda>v. Val (Some v)))
        (if \<not> truthy p' then Val None
         else andThen (get_prop p' (ascii ''parameterName'')) (\<lambda>v. Val (Some v)))"
      proof (cases "truthy p'")
        case False
        with p show ?thesis by (simp add: truthy_rel)
      next
        case True
        have "rel_comp (rel_option (denotes d h0))
          (andThen (h_get_prop h p (ascii ''parameterName'')) (\<lambda>v. Val (Some v)))
          (andThen (get_prop p' (ascii ''parameterName'')) (\<lambda>v. Val (Some v)))"
          by (rule andThen_rel [OF get_prop_rel [OF ext p]]) simp
        with True p show ?thesis by (simp add: truthy_rel)
      qed
    qed
    with True e show ?thesis by (simp add: truthy_rel)
  qed
qed

lemma find_first_rel:
  assumes "list_all2 (denotes d h0) xs ts"
    and "\<And>x t. denotes d h0 x t \<Longrightarrow> rel_comp (=) (p x) (p' t)"
  shows "rel_comp (denotes d h0) (h_find_first p xs) (find_first p' ts)"
  using assms(1)
proof (induction rule: list_all2_induct)
  case Nil
  show ?case by simp
next
  case (Cons x xs t ts)
  show ?case
    unfolding h_find_first.simps find_first.simps
    by (rule andThen_rel [OF assms(2) [OF Cons(1)]]) (use Cons in simp)
qed

lemma elements_rel:
  assumes ext: "extends h0 h" and v: "denotes d h0 v t"
  shows "(\<exists>xs ts. h_elements h v = Val xs \<and> t = Arr ts \<and> list_all2 (denotes d h0) xs ts) \<or>
         (h_elements h v = Thrown TypeError \<and> (\<forall>ts. t \<noteq> Arr ts))"
proof (cases v)
  case (HRef a)
  with v have "tree_of d h0 (HRef a) = Some t" by (simp add: denotes_def)
  then show ?thesis
  proof (cases rule: tree_of_cell)
    case (1 m xs ts)
    with extendsD [OF ext] have "cell_at h a = Some (ArrCell xs)" by (simp add: cell_at_def)
    moreover from 1 have "list_all2 (denotes d h0) xs ts"
      by (auto simp: denotes_def [abs_def] tree_of_Suc elim: list_all2_mono)
    ultimately show ?thesis using HRef 1 by simp
  next
    case (2 m kvs kts)
    with extendsD [OF ext] have "cell_at h a = Some (ObjCell kvs)" by (simp add: cell_at_def)
    with HRef 2 show ?thesis by simp
  qed
qed (use v in \<open>auto simp: denotes_def\<close>)

lemma find_rel:
  assumes ext: "extends h0 h" and v: "denotes d h0 v t"
  shows "rel_comp (denotes d h0) (h_find h v (h_name_is h k s)) (find_js t (name_is k s))"
  using elements_rel [OF ext v]
proof
  assume "\<exists>xs ts. h_elements h v = Val xs \<and> t = Arr ts \<and> list_all2 (denotes d h0) xs ts"
  then obtain xs ts where "h_elements h v = Val xs" "t = Arr ts"
    "list_all2 (denotes d h0) xs ts" by blast
  with find_first_rel [OF this(3), of "h_name_is h k s" "name_is k s"] name_is_rel [OF ext]
  show ?thesis by (simp add: h_find_def find_js_def)
next
  assume "h_elements h v = Thrown TypeError \<and> (\<forall>ts. t \<noteq> Arr ts)"
  then show ?thesis by (cases t) (simp_all add: h_find_def find_js_def)
qed

lemma less_rel:
  assumes ext: "extends h0 h" and v: "denotes d h0 v t"
  shows "rel_comp (=) (h_less h i v) (js_less i t)"
proof (cases v)
  case (HRef a)
  with v have "tree_of d h0 (HRef a) = Some t" by (simp add: denotes_def)
  then show ?thesis
  proof (cases rule: tree_of_cell)
    case (1 m xs ts)
    with extendsD [OF ext] have "cell_at h a = Some (ArrCell xs)" by (simp add: cell_at_def)
    with HRef 1 show ?thesis by simp
  next
    case (2 m kvs kts)
    with extendsD [OF ext] have "cell_at h a = Some (ObjCell kvs)" by (simp add: cell_at_def)
    with HRef 2(4) map_of_related [OF 2(5), of "ascii ''toString''"] show ?thesis by simp
  qed
qed (use v in \<open>auto simp: denotes_def\<close>)

lemma if_truthy_rel:
  assumes "denotes d h0 x t" "rel_comp S a a'" "rel_comp S b b'"
  shows "rel_comp S (if \<not> h_truthy x then a else b) (if \<not> truthy t then a' else b')"
  using assms by (simp add: truthy_rel)

lemma locate_rel:
  assumes ext: "extends h0 h" and data: "denotes d h0 data t"
  shows "rel_comp (denotes d h0) (h_locate_township h data) (locate_township t)"
  unfolding h_locate_township_def locate_township_def
proof (rule andThen_rel [OF get_prop_rel [OF ext data]],
    rule andThen_rel [OF get_prop_rel [OF ext]], assumption,
    rule andThen_rel [OF get_index_rel [OF ext]], assumption,
    rule if_truthy_rel, assumption, simp,
    rule andThen_rel [OF get_prop_rel [OF ext]], assumption,
    rule if_truthy_rel, assumption, simp,
    rule andThen_rel [OF find_rel [OF ext]], assumption)
  fix records records' locations locations' grp grp' location location' found found'
  assume location: "denotes d h0 location location'" and found: "denotes d h0 found found'"
  have "rel_comp (denotes d h0)
     (if h_truthy found then Val found else h_get_index h location 0)
     (if truthy found' then Val found' else get_index location' 0)"
    using found get_index_rel [OF ext location, of 0] by (simp add: truthy_rel)
  then show "rel_comp (denotes d h0)
     (andThen (if h_truthy found then Val found else h_get_index h location 0)
       (\<lambda>taitungCityData. if \<not> h_truthy taitungCityData
          then Ret (404, ErrorJson no_data no_city_message) else Val taitungCityData))
     (andThen (if truthy found' then Val found' else get_index location' 0)
       (\<lambda>taitungCityData. if \<not> truthy taitungCityData
          then Ret (404, ErrorJson no_data no_city_message) else Val taitungCityData))"
    by (rule andThen_rel) (simp add: truthy_rel)
qed

lemma extends_update: "extends h0 h \<Longrightarrow> length h0 \<le> a \<Longrightarrow> extends h0 (h[a := c])"
  by (simp add: extends_def)

lemma extends_append: "extends h0 h \<Longrightarrow> extends h0 (h @ cs)"
  by (simp add: extends_def nth_append)

lemma extends_refl [simp]: "extends h h"
  by (simp add: extends_def)

lemma set_prop_run:
  "cell_at h a = Some (ObjCell kvs) \<Longrightarrow>
     set_prop a k v h = (Val (), h[a := ObjCell (put k v kvs)])"
  by (simp add: set_prop_def)

lemma cell_at_update: "a < length h \<Longrightarrow> cell_at (h[a := c]) a = Some c"
  by (simp add: cell_at_def)

lemma cell_at_Some_less: "cell_at h a = Some c \<Longrightarrow> a < length h"
  by (simp add: cell_at_def split: if_splits)

lemma hrel_simps [simp]:
  "hrel P (Val x, h) (Val y) \<longleftrightarrow> P h x y"
  "hrel P (Thrown e, h) (Thrown e') \<longleftrightarrow> e = e'"
  "hrel P (Ret q, h) (Ret q') \<longleftrightarrow> q = q'"
  "hrel P (Unmodelled, h) Unmodelled"
  by (simp_all add: hrel_def)

lemma hthen_reading_hrel:
  assumes "rel_comp R (g h) m'"
    and "\<And>x y. R x y \<Longrightarrow> hrel P (k x h) (k' y)"
  shows "hrel P (hthen (reading g) k h) (andThen m' k')"
  using assms by (cases "g h"; cases m') (simp_all add: hthen_reading)

lemma hthen_hrel:
  assumes "hrel Q (m h) m'"
    and "\<And>x y h1. m h = (Val x, h1) \<Longrightarrow> Q h1 x y \<Longrightarrow> hrel P (k x h1) (k' y)"
  shows "hrel P (hthen m k h) (andThen m' k')"
proof -
  obtain r h1 where m: "m h = (r, h1)" by (cases "m h")
  with assms show ?thesis by (cases r; cases m') (simp_all add: hrel_def)
qed

lemma hrel_ValD: "hrel P rh (Val y) \<Longrightarrow> \<exists>x h'. rh = (Val x, h') \<and> P h' x y"
  by (cases rh; cases "fst rh") (auto simp: hrel_def)

lemma set_field_rel:
  assumes ext: "extends h0 h" and f: "length h0 \<le> f"
    and fc: "holds_forecast d h0 h f fc" and v: "denotes d h0 v u"
  shows
    "hrel (in_round d h0 f) (set_prop f (ascii ''weather'') v h) (Val (fc\<lparr>weather := u\<rparr>))"
    "hrel (in_round d h0 f) (set_prop f (ascii ''rain'') v h) (Val (fc\<lparr>rain := u\<rparr>))"
    "hrel (in_round d h0 f) (set_prop f (ascii ''minTemp'') v h) (Val (fc\<lparr>minTemp := u\<rparr>))"
    "hrel (in_round d h0 f) (set_prop f (ascii ''maxTemp'') v h) (Val (fc\<lparr>maxTemp := u\<rparr>))"
    "hrel (in_round d h0 f) (set_prop f (ascii ''comfort'') v h) (Val (fc\<lparr>comfort := u\<rparr>))"
    "hrel (in_round d h0 f) (set_prop f (ascii ''windSpeed'') v h)
       (Val (fc\<lparr>windSpeed := u\<rparr>))"
proof -
  from fc obtain s e w r mn mx c ws where
    cell: "cell_at h f = Some (ObjCell
          [(ascii ''startTime'', s), (ascii ''endTime'', e), (ascii ''weather'', w),
           (ascii ''rain'', r), (ascii ''minTemp'', mn), (ascii ''maxTemp'', mx),
           (ascii ''comfort'', c), (ascii ''windSpeed'', ws)])"
    and den: "denotes d h0 s (startTime fc)" "denotes d h0 e (endTime fc)"
        "denotes d h0 w (weather fc)" "denotes d h0 r (rain fc)"
        "denotes d h0 mn (minTemp fc)" "denotes d h0 mx (maxTemp fc)"
        "denotes d h0 c (comfort fc)" "denotes d h0 ws (windSpeed fc)"
    unfolding holds_forecast_def by blast
  note facts = den v cell_at_Some_less [OF cell] extends_update [OF ext f]
  from facts show
    "hrel (in_round d h0 f) (set_prop f (ascii ''weather'') v h) (Val (fc\<lparr>weather := u\<rparr>))"
    by (simp add: set_prop_run [OF cell] in_round_def holds_forecast_def cell_at_update)
  from facts show
    "hrel (in_round d h0 f) (set_prop f (ascii ''rain'') v h) (Val (fc\<lparr>rain := u\<rparr>))"
    by (simp add: set_prop_run [OF cell] in_round_def holds_forecast_def cell_at_update)
  from facts show
    "hrel (in_round d h0 f) (set_prop f (ascii ''minTemp'') v h) (Val (fc\<lparr>minTemp := u\<rparr>))"
    by (simp add: set_prop_run [OF cell] in_round_def holds_forecast_def cell_at_update)
  from facts show
    "hrel (in_round d h0 f) (set_prop f (ascii ''maxTemp'') v h) (Val (fc\<lparr>maxTemp := u\<rparr>))"
    by (simp add: set_prop_run [OF cell] in_round_def holds_forecast_def cell_at_update)
  from facts show
    "hrel (in_round d h0 f) (set_prop f (ascii ''comfort'') v h) (Val (fc\<lparr>comfort := u\<rparr>))"
    by (simp add: set_prop_run [OF cell] in_round_def holds_forecast_def cell_at_update)
  from facts show
    "hrel (in_round d h0 f) (set_prop f (ascii ''windSpeed'') v h)
       (Val (fc\<lparr>windSpeed := u\<rparr>))"
    by (simp add: set_prop_run [OF cell] in_round_def holds_forecast_def cell_at_update)
qed

lemma assign_field_rel:
  assumes ext: "extends h0 h" and f: "length h0 \<le> f"
    and fc: "holds_forecast d h0 h f fc"
    and name: "denotes d h0 name name'" and v: "denotes d h0 v u"
  shows "hrel (in_round d h0 f) (h_assign_field d name v f h) (assign_field name' u fc)"
proof -
  note names = is_string_rel [OF name]
  note set = set_field_rel [OF ext f fc]
  consider (wx) "name' = Str (ascii ''Wx'')" | (pop) "name' = Str (ascii ''PoP6h'')"
    | (t) "name' = Str (ascii ''T'')" | (ci) "name' = Str (ascii ''CI'')"
    | (ws) "name' = Str (ascii ''Ws'')"
    | (other) "name' \<noteq> Str (ascii ''Wx'')" "name' \<noteq> Str (ascii ''PoP6h'')"
        "name' \<noteq> Str (ascii ''T'')" "name' \<noteq> Str (ascii ''CI'')" "name' \<noteq> Str (ascii ''Ws'')"
    by blast
  then show ?thesis
  proof cases
    case wx
    with names set(1) [OF v] show ?thesis by (simp add: h_assign_field_def assign_field_def)
  next
    case pop
    have "hrel (in_round d h0 f)
        (hthen (reading (\<lambda>h. h_add_str d h v percent)) (\<lambda>s. set_prop f (ascii ''rain'') s) h)
        (andThen (add_str u percent) (\<lambda>s. Val (fc\<lparr>rain := s\<rparr>)))"
    proof (rule hthen_reading_hrel [where R = "denotes d h0"])
      show "rel_comp (denotes d h0) (h_add_str d h v percent) (add_str u percent)"
        by (rule add_str_rel [OF ext v])
    qed (rule set(2))
    with pop names show ?thesis by (simp add: h_assign_field_def assign_field_def)
  next
    case t
    have "hrel (in_round d h0 f)
        (hthen (reading (\<lambda>h. h_add_str d h v degrees_celsius)) (\<lambda>s1.
         hthen (set_prop f (ascii ''minTemp'') s1) (\<lambda>_.
         hthen (reading (\<lambda>h. h_add_str d h v degrees_celsius)) (\<lambda>s2.
         set_prop f (ascii ''maxTemp'') s2))) h)
        (andThen (add_str u degrees_celsius) (\<lambda>s1.
         andThen (add_str u degrees_celsius) (\<lambda>s2.
         Val (fc\<lparr>minTemp := s1, maxTemp := s2\<rparr>))))"
    proof (rule hthen_reading_hrel [where R = "denotes d h0"])
      show "rel_comp (denotes d h0) (h_add_str d h v degrees_celsius) (add_str u degrees_celsius)"
        by (rule add_str_rel [OF ext v])
    next
      fix x y
      assume xy: "denotes d h0 x y"
      from hrel_ValD [OF set(3) [OF xy]] obtain h1 where
        run1: "set_prop f (ascii ''minTemp'') x h = (Val (), h1)"
        and ext1: "extends h0 h1" and fc1: "holds_forecast d h0 h1 f (fc\<lparr>minTemp := y\<rparr>)"
        by (auto simp: in_round_def)
      have "hrel (in_round d h0 f)
          (hthen (reading (\<lambda>h. h_add_str d h v degrees_celsius)) (\<lambda>s2.
           set_prop f (ascii ''maxTemp'') s2) h1)
          (andThen (add_str u degrees_celsius) (\<lambda>s2. Val (fc\<lparr>minTemp := y, maxTemp := s2\<rparr>)))"
      proof (rule hthen_reading_hrel [where R = "denotes d h0"])
        show "rel_comp (denotes d h0) (h_add_str d h1 v degrees_celsius)
            (add_str u degrees_celsius)"
          by (rule add_str_rel [OF ext1 v])
      qed (rule set_field_rel(4) [OF ext1 f fc1])
      then show "hrel (in_round d h0 f)
          (hthen (set_prop f (ascii ''minTemp'') x) (\<lambda>_.
           hthen (reading (\<lambda>h. h_add_str d h v degrees_celsius)) (\<lambda>s2.
           set_prop f (ascii ''maxTemp'') s2)) h)
          (andThen (add_str u degrees_celsius) (\<lambda>s2. Val (fc\<lparr>minTemp := y, maxTemp := s2\<rparr>)))"
        by (simp add: hthen_def run1)
    qed
    with t names show ?thesis by (simp add: h_assign_field_def assign_field_def)
  next
    case ci
    with names set(5) [OF v] show ?thesis by (simp add: h_assign_field_def assign_field_def)
  next
    case ws
    with names set(6) [OF v] show ?thesis by (simp add: h_assign_field_def assign_field_def)
  next
    case other
    with names ext fc show ?thesis
      by (simp add: h_assign_field_def assign_field_def in_round_def)
  qed
qed

lemma hrel_mono:
  "hrel P rh m \<Longrightarrow> (\<And>x y. P (snd rh) x y \<Longrightarrow> Q (snd rh) x y) \<Longrightarrow> hrel Q rh m"
  unfolding hrel_def by (cases "fst rh"; cases m) simp_all

lemma only_cell_extends:
  assumes "only_cell f m" "m h = (r, h')" "extends h0 h" "length h0 \<le> f"
  shows "extends h0 h'"
  using only_cellD [OF assms(1,2)] assms(3,4) by (simp add: extends_def)

lemma process_element_rel:
  assumes ext: "extends h0 h" and f: "length h0 \<le> f"
    and fc: "holds_forecast d h0 h f fc" and x: "denotes d h0 x t"
  shows "hrel (in_round d h0 f) (h_process_element d i f x h) (process_element i t fc)"
  unfolding h_process_element_def process_element_def
proof (rule hthen_reading_hrel [where R = "rel_option (denotes d h0)"])
  show "rel_comp (rel_option (denotes d h0)) (h_read_value h i x) (read_value i t)"
    by (rule read_value_rel [OF ext x])
next
  fix ro ro'
  assume ro: "rel_option (denotes d h0) ro ro'"
  show "hrel (in_round d h0 f)
     ((case ro of None \<Rightarrow> \<lambda>h. (Val (), h)
       | Some v \<Rightarrow> hthen (reading (\<lambda>h. h_get_prop h x (ascii ''elementName'')))
            (\<lambda>name. h_assign_field d name v f)) h)
     (case ro' of None \<Rightarrow> Val fc
      | Some v \<Rightarrow> andThen (get_prop t (ascii ''elementName''))
            (\<lambda>name. assign_field name v fc))"
  proof (cases ro)
    case None
    with ro have "ro' = None" by simp
    with None ext fc show ?thesis by (simp add: in_round_def)
  next
    case (Some v)
    with ro obtain u where u: "ro' = Some u" "denotes d h0 v u"
      by (cases ro') simp_all
    have "hrel (in_round d h0 f)
      (hthen (reading (\<lambda>h. h_get_prop h x (ascii ''elementName'')))
            (\<lambda>name. h_assign_field d name v f) h)
      (andThen (get_prop t (ascii ''elementName'')) (\<lambda>name. assign_field name u fc))"
    proof (rule hthen_reading_hrel [where R = "denotes d h0"])
      show "rel_comp (denotes d h0) (h_get_prop h x (ascii ''elementName''))
        (get_prop t (ascii ''elementName''))"
        by (rule get_prop_rel [OF ext x])
    next
      fix name name'
      assume name: "denotes d h0 name name'"
      show "hrel (in_round d h0 f) (h_assign_field d name v f h) (assign_field name' u fc)"
        by (rule assign_field_rel [OF ext f fc name u(2)])
    qed
    with Some u show ?thesis by simp
  qed
qed

lemma for_each_rel:
  assumes f: "length h0 \<le> f"
    and a: "a < length h0" "h0 ! a = ArrCell xs"
    and xs: "list_all2 (denotes d h0) xs ts"
  shows "extends h0 h \<Longrightarrow> holds_forecast d h0 h f fc \<Longrightarrow> j + k = length xs \<Longrightarrow>
    hrel (in_round d h0 f) (h_for_each (h_process_element d i f) (HRef a) j k h)
      (for_each (process_element i) (drop j ts) fc)"
proof (induction k arbitrary: j h fc)
  case 0
  with xs have "drop j ts = []" by (simp add: list_all2_lengthD)
  with 0 show ?case by (simp add: in_round_def)
next
  case (Suc k)
  from xs have len: "length ts = length xs" by (simp add: list_all2_lengthD)
  from Suc.prems(3) have j: "j < length xs" by simp
  with len have drop: "drop j ts = ts ! j # drop (Suc j) ts" by (simp add: Cons_nth_drop_Suc)
  from list_all2_nthD [OF xs j] have x: "denotes d h0 (xs ! j) (ts ! j)" .
  from Suc.prems(1) a have "cell_at h a = Some (ArrCell xs)"
    by (simp add: cell_at_def extends_def)
  with j have rd: "h_get_index h (HRef a) j = Val (xs ! j)" by simp
  have "hrel (in_round d h0 f)
     (hthen (h_process_element d i f (xs ! j))
        (\<lambda>_. h_for_each (h_process_element d i f) (HRef a) (Suc j) k) h)
     (andThen (process_element i (ts ! j) fc) (for_each (process_element i) (drop (Suc j) ts)))"
  proof (rule hthen_hrel [where Q = "in_round d h0 f"])
    show "hrel (in_round d h0 f) (h_process_element d i f (xs ! j) h)
      (process_element i (ts ! j) fc)"
      by (rule process_element_rel [OF Suc.prems(1) f Suc.prems(2) x])
  next
    fix u :: unit and fc' h1
    assume "in_round d h0 f h1 u fc'"
    then have "extends h0 h1" "holds_forecast d h0 h1 f fc'" by (simp_all add: in_round_def)
    with Suc.prems(3) show "hrel (in_round d h0 f)
       (h_for_each (h_process_element d i f) (HRef a) (Suc j) k h1)
       (for_each (process_element i) (drop (Suc j) ts) fc')"
      by (intro Suc.IH) simp_all
  qed
  with rd drop show ?case by (simp add: hthen_reading)
qed

lemma forEach_rel:
  assumes ext: "extends h0 h" and f: "length h0 \<le> f"
    and fc: "holds_forecast d h0 h f fc" and wes: "denotes d h0 wes tw"
  shows "hrel (in_round d h0 f) (h_forEach wes (h_process_element d i f) h)
     (forEach_js tw (process_element i) fc)"
proof (cases wes)
  case (HRef a)
  with wes have "tree_of d h0 (HRef a) = Some tw" by (simp add: denotes_def)
  then show ?thesis
  proof (cases rule: tree_of_cell)
    case (1 m xs ts)
    with ext have c: "cell_at h a = Some (ArrCell xs)" by (simp add: cell_at_def extends_def)
    from 1 have l: "list_all2 (denotes d h0) xs ts"
      by (auto simp: denotes_def [abs_def] tree_of_Suc elim: list_all2_mono)
    from for_each_rel [OF f 1(2,3) l ext fc, of 0 "length xs" i] c HRef 1(4)
    show ?thesis by (simp add: h_forEach_def forEach_js_def hthen_reading)
  next
    case (2 m kvs kts)
    with ext have "cell_at h a = Some (ObjCell kvs)" by (simp add: cell_at_def extends_def)
    with HRef 2 show ?thesis by (simp add: h_forEach_def forEach_js_def hthen_reading)
  qed
qed (use wes in \<open>auto simp: denotes_def h_forEach_def forEach_js_def hthen_reading\<close>)

lemma if_not_truthy_hrel:
  assumes "denotes d h0 x t" "hrel P (a h) a'" "hrel P (b h) b'"
  shows "hrel P ((if \<not> h_truthy x then a else b) h) (if \<not> truthy t then a' else b')"
  using assms by (simp add: truthy_rel)

lemma if_truthy_hrel:
  assumes "denotes d h0 x t" "hrel P (a h) a'" "hrel P (b h) b'"
  shows "hrel P ((if h_truthy x then a else b) h) (if truthy t then a' else b')"
  using assms by (simp add: truthy_rel)

lemma set_rain_rel:
  assumes "extends h0 h" "length h0 \<le> f" "holds_forecast d h0 h f fc" "denotes d h0 v u"
  shows "hrel (in_round d h0 f) (set_prop f (ascii ''rain'') v h) (Val (fc\<lparr>rain := u\<rparr>))"
  using assms by (rule set_field_rel(2))

lemma forecast_rain:
  assumes "holds_forecast d h0 h f fc"
  shows "\<exists>r. h_get_prop h (HRef f) (ascii ''rain'') = Val r \<and> denotes d h0 r (rain fc)"
  using assms unfolding holds_forecast_def by (auto simp: h_own_def)

lemma resolve_rain_rel:
  assumes ext: "extends h0 h" and f: "length h0 \<le> f"
    and fc: "holds_forecast d h0 h f fc" and wes: "denotes d h0 wes tw"
  shows "hrel (in_round d h0 f) (h_resolve_rain d wes i f h) (resolve_rain tw i fc)"
proof -
  from forecast_rain [OF fc] obtain r where
    rd: "h_get_prop h (HRef f) (ascii ''rain'') = Val r" and r: "denotes d h0 r (rain fc)"
    by blast
  note zero = set_rain_rel [OF ext f fc, of "HStr (ascii ''0%'')" "Str (ascii ''0%'')", simplified]
  show ?thesis
  proof (cases "truthy (rain fc)")
    case True
    with rd r ext fc show ?thesis
      by (simp add: h_resolve_rain_def resolve_rain_def hthen_reading truthy_rel in_round_def)
  next
    case False
    have "hrel (in_round d h0 f)
      (hthen (reading (\<lambda>h. h_find h wes (h_name_is h (ascii ''elementName'') (ascii ''PoP12h''))))
        (\<lambda>pop12hElement.
          if \<not> h_truthy pop12hElement then set_prop f (ascii ''rain'') (HStr (ascii ''0%''))
          else hthen (reading (\<lambda>h. h_time_entry h pop12hElement i)) (\<lambda>entry.
            if h_truthy entry then
              hthen (reading (\<lambda>h. h_time_entry h pop12hElement i)) (\<lambda>entry'.
              hthen (reading (\<lambda>h. h_get_prop h entry' (ascii ''parameter''))) (\<lambda>parameter.
              hthen (reading (\<lambda>h. h_get_prop h parameter (ascii ''parameterName'')))
                (\<lambda>popValue.
              hthen (reading (\<lambda>h. h_add_str d h popValue percent)) (\<lambda>s.
              set_prop f (ascii ''rain'') s))))
            else set_prop f (ascii ''rain'') (HStr (ascii ''0%'')))) h)
      (andThen (find_js tw (name_is (ascii ''elementName'') (ascii ''PoP12h'')))
        (\<lambda>pop12hElement.
          if \<not> truthy pop12hElement then Val (fc\<lparr>rain := Str (ascii ''0%'')\<rparr>)
          else andThen (time_entry pop12hElement i) (\<lambda>entry.
            if truthy entry then
              andThen (time_entry pop12hElement i) (\<lambda>entry'.
              andThen (get_prop entry' (ascii ''parameter'')) (\<lambda>parameter.
              andThen (get_prop parameter (ascii ''parameterName'')) (\<lambda>popValue.
              andThen (add_str popValue percent) (\<lambda>s. Val (fc\<lparr>rain := s\<rparr>)))))
            else Val (fc\<lparr>rain := Str (ascii ''0%'')\<rparr>))))"
      apply (rule hthen_reading_hrel [where R = "denotes d h0"])
       apply (rule find_rel [OF ext wes])
      apply (rule if_not_truthy_hrel, assumption)
       apply (rule zero)
      apply (rule hthen_reading_hrel [where R = "denotes d h0"])
       apply (erule time_entry_rel [OF ext])
      apply (rule if_truthy_hrel, assumption)
       apply (rule hthen_reading_hrel [where R = "denotes d h0"])
        apply (erule time_entry_rel [OF ext])
       apply (rule hthen_reading_hrel [where R = "denotes d h0"])
        apply (erule get_prop_rel [OF ext])
       apply (rule hthen_reading_hrel [where R = "denotes d h0"])
        apply (erule get_prop_rel [OF ext])
       apply (rule hthen_reading_hrel [where R = "denotes d h0"])
        apply (erule add_str_rel [OF ext])
       apply (erule set_rain_rel [OF ext f fc])
      apply (rule zero)
      done
    with False rd r show ?thesis
      by (simp add: h_resolve_rain_def resolve_rain_def hthen_reading truthy_rel)
  qed
qed

lemma andThen_Val [simp]: "andThen m Val = m"
  by (cases m) simp_all

lemma holds_forecast_cong:
  "holds_forecast d h0 h a fc \<Longrightarrow> cell_at h' a = cell_at h a \<Longrightarrow> holds_forecast d h0 h' a fc"
  by (simp add: holds_forecast_def)

lemma new_forecast_rel:
  assumes ext: "extends h0 h" and wx: "denotes d h0 wx twx"
  shows "hrel (\<lambda>h' a fc0. a = length h \<and> (\<exists>c. h' = h @ [c]) \<and> holds_forecast d h0 h' a fc0)
    (h_new_forecast wx i h) (new_forecast twx i)"
  unfolding h_new_forecast_def new_forecast_def
  apply (rule hthen_reading_hrel [where R = "denotes d h0"])
   apply (rule time_entry_rel [OF ext wx])
  apply (rule hthen_reading_hrel [where R = "denotes d h0"])
   apply (erule get_prop_rel [OF ext])
  apply (rule hthen_reading_hrel [where R = "denotes d h0"])
   apply (rule time_entry_rel [OF ext wx])
  apply (rule hthen_reading_hrel [where R = "denotes d h0"])
   apply (erule get_prop_rel [OF ext])
  apply (simp add: alloc_def holds_forecast_def cell_at_def)
  done

lemma push_forecast_run:
  "cell_at h fa = Some (ArrCell refs) \<Longrightarrow>
     push (HRef fa) v h = (Val (), h[fa := ArrCell (refs @ [v])])"
  by (simp add: push_def)

lemma cell_at_update_other: "a \<noteq> b \<Longrightarrow> cell_at (h[b := c]) a = cell_at h a"
  by (simp add: cell_at_def)

lemma cell_at_same:
  "length h' = length h \<Longrightarrow> h' ! a = h ! a \<Longrightarrow> cell_at h' a = cell_at h a"
  by (simp add: cell_at_def)

lemma round_rel:
  assumes inv: "holds_data d h0 wd fa kvs h fs"
    and wes: "denotes d h0 wes tw" and wx: "denotes d h0 wx twx"
  shows "hrel (\<lambda>h' u fc. holds_data d h0 wd fa kvs h' (fs @ [fc]))
    (h_round d (HRef wd) wes wx i h) (forecast_at tw twx i)"
proof -
  from inv obtain refs where ext: "extends h0 h" and fa: "length h0 \<le> fa"
    and cwd: "cell_at h wd = Some (ObjCell kvs)"
    and own: "h_own kvs (ascii ''forecasts'') = HRef fa"
    and cfa: "cell_at h fa = Some (ArrCell refs)"
    and refs: "list_all2 (\<lambda>r fc. \<exists>a. r = HRef a \<and> holds_forecast d h0 h a fc) refs fs"
    unfolding holds_data_def by blast
  note lwd = cell_at_Some_less [OF cwd] and lfa = cell_at_Some_less [OF cfa]
  have "hrel (\<lambda>h' u fc. holds_data d h0 wd fa kvs h' (fs @ [fc]))
    (hthen (h_new_forecast wx i) (\<lambda>forecast.
       hthen (h_forEach wes (h_process_element d i forecast)) (\<lambda>_.
       hthen (h_resolve_rain d wes i forecast) (\<lambda>_.
       hthen (reading (\<lambda>h. h_get_prop h (HRef wd) (ascii ''forecasts''))) (\<lambda>forecasts.
       push forecasts (HRef forecast))))) h)
    (andThen (new_forecast twx i) (\<lambda>fc0.
       andThen (forEach_js tw (process_element i) fc0) (\<lambda>fc1.
       andThen (resolve_rain tw i fc1) Val)))"
  proof (rule hthen_hrel [where Q = "\<lambda>h' a fc0. a = length h \<and> (\<exists>c. h' = h @ [c]) \<and>
      holds_forecast d h0 h' a fc0"])
    show "hrel (\<lambda>h' a fc0. a = length h \<and> (\<exists>c. h' = h @ [c]) \<and> holds_forecast d h0 h' a fc0)
      (h_new_forecast wx i h) (new_forecast twx i)"
      by (rule new_forecast_rel [OF ext wx])
  next
    fix f fc0 h1
    assume "f = length h \<and> (\<exists>c. h1 = h @ [c]) \<and> holds_forecast d h0 h1 f fc0"
    then obtain c where f: "f = length h" and h1: "h1 = h @ [c]"
      and fc0: "holds_forecast d h0 h1 f fc0" by blast
    from ext f have f0: "length h0 \<le> f" by (simp add: extends_def)
    from ext h1 have ext1: "extends h0 h1" by (simp add: extends_append)
    show "hrel (\<lambda>h' u fc. holds_data d h0 wd fa kvs h' (fs @ [fc]))
      (hthen (h_forEach wes (h_process_element d i f)) (\<lambda>_.
         hthen (h_resolve_rain d wes i f) (\<lambda>_.
         hthen (reading (\<lambda>h. h_get_prop h (HRef wd) (ascii ''forecasts''))) (\<lambda>forecasts.
         push forecasts (HRef f)))) h1)
      (andThen (forEach_js tw (process_element i) fc0) (\<lambda>fc1.
         andThen (resolve_rain tw i fc1) Val))"
    proof (rule hthen_hrel [where Q = "in_round d h0 f"])
      show "hrel (in_round d h0 f) (h_forEach wes (h_process_element d i f) h1)
        (forEach_js tw (process_element i) fc0)"
        by (rule forEach_rel [OF ext1 f0 fc0 wes])
    next
      fix u :: unit and fc1 h2
      assume run2: "h_forEach wes (h_process_element d i f) h1 = (Val u, h2)"
        and "in_round d h0 f h2 u fc1"
      then have ext2: "extends h0 h2" and fc1: "holds_forecast d h0 h2 f fc1"
        by (simp_all add: in_round_def)
      have oc: "only_cell f (h_forEach wes (h_process_element d i f))"
        by (rule only_cell_forEach) (rule only_cell_process_element)
      note same2 = only_cellD [OF oc run2]
      show "hrel (\<lambda>h' u fc. holds_data d h0 wd fa kvs h' (fs @ [fc]))
        (hthen (h_resolve_rain d wes i f) (\<lambda>_.
           hthen (reading (\<lambda>h. h_get_prop h (HRef wd) (ascii ''forecasts''))) (\<lambda>forecasts.
           push forecasts (HRef f))) h2)
        (andThen (resolve_rain tw i fc1) Val)"
      proof (rule hthen_hrel [where Q = "in_round d h0 f"])
        show "hrel (in_round d h0 f) (h_resolve_rain d wes i f h2) (resolve_rain tw i fc1)"
          by (rule resolve_rain_rel [OF ext2 f0 fc1 wes])
      next
        fix u' :: unit and fc h3
        assume run3: "h_resolve_rain d wes i f h2 = (Val u', h3)"
          and "in_round d h0 f h3 u' fc"
        then have ext3: "extends h0 h3" and fc: "holds_forecast d h0 h3 f fc"
          by (simp_all add: in_round_def)
        note same3 = only_cellD [OF only_cell_resolve_rain run3]
        have len3: "length h3 = Suc (length h)" using same3 same2 h1 by simp
        have old: "cell_at h3 a = cell_at h a" if "a < length h" for a
          using that same3 same2 h1 f by (simp add: cell_at_def nth_append)
        from old [OF lwd] cwd own
        have rd: "h_get_prop h3 (HRef wd) (ascii ''forecasts'') = Val (HRef fa)" by simp
        from old [OF lfa] cfa have cfa3: "cell_at h3 fa = Some (ArrCell refs)" by simp
        let ?h4 = "h3[fa := ArrCell (refs @ [HRef f])]"
        from cwd cfa have ne: "wd \<noteq> fa" by auto
        have "holds_data d h0 wd fa kvs ?h4 (fs @ [fc])"
          unfolding holds_data_def
        proof (intro conjI exI)
          show "extends h0 ?h4" by (rule extends_update [OF ext3 fa])
          show "length h0 \<le> fa" by (rule fa)
          show "cell_at ?h4 wd = Some (ObjCell kvs)"
            using ne old [OF lwd] cwd by (simp add: cell_at_update_other)
          show "h_own kvs (ascii ''forecasts'') = HRef fa" by (rule own)
          show "cell_at ?h4 fa = Some (ArrCell (refs @ [HRef f]))"
            using lfa len3 by (simp add: cell_at_update)
          have "list_all2 (\<lambda>r fc. \<exists>a. r = HRef a \<and> holds_forecast d h0 ?h4 a fc) refs fs"
            using refs
          proof (rule list_all2_mono)
            fix r fc'
            assume "\<exists>a. r = HRef a \<and> holds_forecast d h0 h a fc'"
            then obtain a where r: "r = HRef a" and a: "holds_forecast d h0 h a fc'" by blast
            from a obtain c' where ca: "cell_at h a = Some (ObjCell c')"
              unfolding holds_forecast_def by blast
            with cfa have "a \<noteq> fa" by auto
            moreover from ca have "a < length h" by (rule cell_at_Some_less)
            ultimately have "cell_at ?h4 a = cell_at h a"
              using old [of a] by (simp add: cell_at_update_other)
            from holds_forecast_cong [OF a this] r
            show "\<exists>a. r = HRef a \<and> holds_forecast d h0 ?h4 a fc'" by blast
          qed
          moreover have "holds_forecast d h0 ?h4 f fc"
          proof (rule holds_forecast_cong [OF fc])
            from lfa f have "f \<noteq> fa" by simp
            then show "cell_at ?h4 f = cell_at h3 f" by (simp add: cell_at_update_other)
          qed
          ultimately show "list_all2 (\<lambda>r fc. \<exists>a. r = HRef a \<and> holds_forecast d h0 ?h4 a fc)
            (refs @ [HRef f]) (fs @ [fc])"
            by (simp add: list_all2_appendI)
        qed
        moreover have "hthen (reading (\<lambda>h. h_get_prop h (HRef wd) (ascii ''forecasts'')))
            (\<lambda>forecasts. push forecasts (HRef f)) h3 = (Val (), ?h4)"
          unfolding hthen_reading rd by (simp add: push_forecast_run [OF cfa3])
        ultimately show "hrel (\<lambda>h' u fc. holds_data d h0 wd fa kvs h' (fs @ [fc]))
          (hthen (reading (\<lambda>h. h_get_prop h (HRef wd) (ascii ''forecasts''))) (\<lambda>forecasts.
             push forecasts (HRef f)) h3) (Val fc)"
          by simp
      qed
    qed
  qed
  then show ?thesis by (simp add: h_round_def forecast_at_def)
qed

lemma loop_rel:
  assumes wes: "denotes d h0 wes tw" and wx: "denotes d h0 wx twx"
  shows "denotes d h0 tc ttc \<Longrightarrow> holds_data d h0 wd fa kvs h acc \<Longrightarrow>
    hrel (\<lambda>h' u fs. holds_data d h0 wd fa kvs h' fs)
      (h_for_loop (h_round d (HRef wd) wes wx) tc i h)
      (for_loop (forecast_at tw twx) ttc i acc)"
proof (induction "h_round d (HRef wd) wes wx" tc i h arbitrary: acc rule: h_for_loop.induct)
  case (1 tc i h)
  let ?body = "h_round d (HRef wd) wes wx"
  from "1.prems"(2) have ext: "extends h0 h" by (simp add: holds_data_def)
  note less = less_rel [OF ext "1.prems"(1), of i]
  show ?case
  proof (cases "h_less h i tc")
    case (Val b)
    with less have pure: "js_less i ttc = Val b" by (cases "js_less i ttc") simp_all
    show ?thesis
    proof (cases b)
      case False
      with Val pure "1.prems"(2) show ?thesis
        by (subst h_for_loop.simps, subst for_loop.simps) simp
    next
      case True
      have "hrel (\<lambda>h' u fs. holds_data d h0 wd fa kvs h' fs)
        (hthen (?body i) (\<lambda>_. h_for_loop ?body tc (Suc i)) h)
        (andThen (forecast_at tw twx i)
          (\<lambda>x. for_loop (forecast_at tw twx) ttc (Suc i) (acc @ [x])))"
      proof (rule hthen_hrel [where Q = "\<lambda>h' u fc. holds_data d h0 wd fa kvs h' (acc @ [fc])"])
        show "hrel (\<lambda>h' u fc. holds_data d h0 wd fa kvs h' (acc @ [fc])) (?body i h)
          (forecast_at tw twx i)"
          by (rule round_rel [OF "1.prems"(2) wes wx])
      next
        fix u :: unit and fc h1
        assume "holds_data d h0 wd fa kvs h1 (acc @ [fc])"
        with "1.prems"(1) show "hrel (\<lambda>h' u fs. holds_data d h0 wd fa kvs h' fs)
          (h_for_loop ?body tc (Suc i) h1)
          (for_loop (forecast_at tw twx) ttc (Suc i) (acc @ [fc]))"
          by (rule "1.hyps" [OF Val True])
      qed
      with Val pure True show ?thesis
        by (subst h_for_loop.simps, subst for_loop.simps) simp
    qed
  next
    case (Ret q)
    with less show ?thesis
      by (subst h_for_loop.simps, subst for_loop.simps) (cases "js_less i ttc"; simp)
  next
    case (Thrown e)
    with less show ?thesis
      by (subst h_for_loop.simps, subst for_loop.simps) (cases "js_less i ttc"; simp)
  next
    case Unmodelled
    with less show ?thesis
      by (subst h_for_loop.simps, subst for_loop.simps) (cases "js_less i ttc"; simp)
  qed
qed

lemma hthen_alloc: "hthen (alloc c) k h = k (length h) (h @ [c])"
  by (simp add: hthen_def alloc_def)

lemma denotes_in_extension:
  "denotes d h0 x t \<Longrightarrow> extends h0 h \<Longrightarrow> tree_of d h x = Some t"
  unfolding denotes_def extends_def by (rule tree_of_extend) auto

lemma forecast_tree:
  assumes "holds_forecast d h0 h a fc" and ext: "extends h0 h"
  shows "tree_of (Suc d) h (HRef a) = Some (json_of_forecast fc)"
proof -
  from assms(1) obtain s e w r mn mx c ws where
    cell: "cell_at h a = Some (ObjCell
          [(ascii ''startTime'', s), (ascii ''endTime'', e), (ascii ''weather'', w),
           (ascii ''rain'', r), (ascii ''minTemp'', mn), (ascii ''maxTemp'', mx),
           (ascii ''comfort'', c), (ascii ''windSpeed'', ws)])"
    and den: "denotes d h0 s (startTime fc)" "denotes d h0 e (endTime fc)"
        "denotes d h0 w (weather fc)" "denotes d h0 r (rain fc)"
        "denotes d h0 mn (minTemp fc)" "denotes d h0 mx (maxTemp fc)"
        "denotes d h0 c (comfort fc)" "denotes d h0 ws (windSpeed fc)"
    unfolding holds_forecast_def by blast
  from den [THEN denotes_in_extension [OF _ ext]] cell show ?thesis
    by (simp add: json_of_forecast_def)
qed

lemma data_tree:
  assumes inv: "holds_data d h0 wd fa
      [(ascii ''city'', c), (ascii ''updateTime'', u), (ascii ''forecasts'', HRef fa)] h fs"
    and c: "denotes d h0 c tc" and u: "denotes d h0 u tu"
  shows "tree_of (d + 3) h (HRef wd) =
    Some (json_of_data \<lparr>city = tc, updateTime = tu, forecasts = fs\<rparr>)"
proof -
  from inv obtain refs where ext: "extends h0 h"
    and cwd: "cell_at h wd = Some (ObjCell
      [(ascii ''city'', c), (ascii ''updateTime'', u), (ascii ''forecasts'', HRef fa)])"
    and cfa: "cell_at h fa = Some (ArrCell refs)"
    and refs: "list_all2 (\<lambda>r fc. \<exists>a. r = HRef a \<and> holds_forecast d h0 h a fc) refs fs"
    unfolding holds_data_def by blast
  from refs have "list_all2 (\<lambda>r fc. tree_of (Suc d) h r = Some (json_of_forecast fc)) refs fs"
  proof (rule list_all2_mono)
    fix r fc
    assume "\<exists>a. r = HRef a \<and> holds_forecast d h0 h a fc"
    then obtain a where "r = HRef a" "holds_forecast d h0 h a fc" by blast
    with forecast_tree [OF this(2) ext]
    show "tree_of (Suc d) h r = Some (json_of_forecast fc)" by (simp del: tree_of.simps)
  qed
  from those_map_related [OF this] cfa
  have arr: "tree_of (Suc (Suc d)) h (HRef fa) = Some (Arr (map json_of_forecast fs))"
    by simp
  from denotes_in_extension [OF c ext] have "tree_of (Suc (Suc d)) h c = Some tc"
    by (intro tree_of_Suc)
  moreover from denotes_in_extension [OF u ext] have "tree_of (Suc (Suc d)) h u = Some tu"
    by (intro tree_of_Suc)
  ultimately have "tree_of (Suc (Suc (Suc d))) h (HRef wd) =
    Some (json_of_data \<lparr>city = tc, updateTime = tu, forecasts = fs\<rparr>)"
    using cwd arr by (simp add: json_of_data_def)
  then show ?thesis by (simp add: numeral_3_eq_3)
qed

lemma normalize_rel:
  assumes ext: "extends h0 h" and data: "denotes d h0 data t" and tcd: "denotes d h0 tcd ttcd"
  shows "hrel (response_rel d) (h_normalize_township d data tcd h) (normalize_township t ttcd)"
  unfolding h_normalize_township_def normalize_township_def
proof (rule hthen_reading_hrel [where R = "denotes d h0"], rule get_prop_rel [OF ext tcd],
    rule hthen_reading_hrel [where R = "denotes d h0"], rule get_prop_rel [OF ext data],
    rule hthen_reading_hrel [where R = "denotes d h0"], erule get_prop_rel [OF ext])
  fix name name' recs recs' issue issue'
  assume name: "denotes d h0 name name'" and issue: "denotes d h0 issue issue'"
  let ?fa = "length h" and ?wd = "length (h @ [ArrCell []])"
  let ?u = "if h_truthy issue then issue else HStr unknown_issue_time"
  let ?kvs = "[(ascii ''city'', name), (ascii ''updateTime'', ?u),
    (ascii ''forecasts'', HRef ?fa)]"
  let ?h2 = "(h @ [ArrCell []]) @ [ObjCell ?kvs]"
  let ?P = "\<lambda>h' (u :: unit) fs. holds_data d h0 ?wd ?fa ?kvs h' fs"
  from ext have ext2: "extends h0 ?h2" by (intro extends_append)
  from issue have u: "denotes d h0 ?u (or_else issue' (Str unknown_issue_time))"
    by (simp add: or_else_def truthy_rel)
  from ext have init: "holds_data d h0 ?wd ?fa ?kvs ?h2 []"
    by (simp add: holds_data_def extends_append h_own_def cell_at_def nth_append extends_def)
  have "hrel (response_rel d)
    (hthen (reading (\<lambda>h. h_get_prop h tcd (ascii ''weatherElement''))) (\<lambda>weatherElements.
     hthen (reading (\<lambda>h. h_find h weatherElements
              (h_name_is h (ascii ''elementName'') (ascii ''Wx'')))) (\<lambda>wxElement.
     if \<not> h_truthy wxElement then (\<lambda>h. (Thrown (Error missing_wx), h))
     else
       hthen (reading (\<lambda>h. h_get_prop h wxElement (ascii ''time''))) (\<lambda>t.
       hthen (reading (\<lambda>h. h_get_prop h t (ascii ''length''))) (\<lambda>timeCount.
       hthen (h_for_loop (h_round d (HRef ?wd) weatherElements wxElement) timeCount 0) (\<lambda>_.
       (\<lambda>h. (Val (200, HRef ?wd), h))))))) ?h2)
    (andThen (get_prop ttcd (ascii ''weatherElement'')) (\<lambda>weatherElements.
     andThen (find_js weatherElements (name_is (ascii ''elementName'') (ascii ''Wx'')))
       (\<lambda>wxElement.
     if \<not> truthy wxElement then Thrown (Error missing_wx)
     else
       andThen (get_prop wxElement (ascii ''time'')) (\<lambda>t.
       andThen (get_prop t (ascii ''length'')) (\<lambda>timeCount.
       andThen (for_loop (forecast_at weatherElements wxElement) timeCount 0 []) (\<lambda>fs.
       Val (200, SuccessJson
         \<lparr>city = name', updateTime = or_else issue' (Str unknown_issue_time),
          forecasts = fs\<rparr>)))))))"
  proof (rule hthen_reading_hrel [where R = "denotes d h0"], rule get_prop_rel [OF ext2 tcd],
      rule hthen_reading_hrel [where R = "denotes d h0"], erule find_rel [OF ext2],
      rule if_not_truthy_hrel, assumption, simp,
      rule hthen_reading_hrel [where R = "denotes d h0"], erule get_prop_rel [OF ext2],
      rule hthen_reading_hrel [where R = "denotes d h0"], erule get_prop_rel [OF ext2])
    fix wes wes' wx wx' tm tm' tc tc'
    assume wes: "denotes d h0 wes wes'" and wx: "denotes d h0 wx wx'"
      and tc: "denotes d h0 tc tc'"
    show "hrel (response_rel d)
      (hthen (h_for_loop (h_round d (HRef ?wd) wes wx) tc 0)
         (\<lambda>_ h. (Val (200, HRef ?wd), h)) ?h2)
      (andThen (for_loop (forecast_at wes' wx') tc' 0 []) (\<lambda>fs.
         Val (200, SuccessJson
           \<lparr>city = name', updateTime = or_else issue' (Str unknown_issue_time),
            forecasts = fs\<rparr>)))"
    proof (rule hthen_hrel [where Q = ?P])
      show "hrel ?P (h_for_loop (h_round d (HRef ?wd) wes wx) tc 0 ?h2)
        (for_loop (forecast_at wes' wx') tc' 0 [])"
        by (rule loop_rel [OF wes wx tc init])
    next
      fix x :: unit and fs h'
      assume "holds_data d h0 ?wd ?fa ?kvs h' fs"
      from data_tree [OF this name u]
      show "hrel (response_rel d) (Val (200, HRef ?wd), h')
        (Val (200, SuccessJson
           \<lparr>city = name', updateTime = or_else issue' (Str unknown_issue_time),
            forecasts = fs\<rparr>))"
        by (simp add: response_rel_def)
    qed
  qed
  then show "hrel (response_rel d)
    (hthen (alloc (ArrCell [])) (\<lambda>forecasts.
     hthen (alloc (ObjCell
       [(ascii ''city'', name), (ascii ''updateTime'', ?u),
        (ascii ''forecasts'', HRef forecasts)])) (\<lambda>weatherData.
     hthen (reading (\<lambda>h. h_get_prop h tcd (ascii ''weatherElement''))) (\<lambda>weatherElements.
     hthen (reading (\<lambda>h. h_find h weatherElements
              (h_name_is h (ascii ''elementName'') (ascii ''Wx'')))) (\<lambda>wxElement.
     if \<not> h_truthy wxElement then (\<lambda>h. (Thrown (Error missing_wx), h))
     else
       hthen (reading (\<lambda>h. h_get_prop h wxElement (ascii ''time''))) (\<lambda>t.
       hthen (reading (\<lambda>h. h_get_prop h t (ascii ''length''))) (\<lambda>timeCount.
       hthen (h_for_loop (h_round d (HRef weatherData) weatherElements wxElement)
                timeCount 0) (\<lambda>_.
       (\<lambda>h. (Val (200, HRef weatherData), h))))))))) h)
    (andThen (get_prop ttcd (ascii ''weatherElement'')) (\<lambda>weatherElements.
     andThen (find_js weatherElements (name_is (ascii ''elementName'') (ascii ''Wx'')))
       (\<lambda>wxElement.
     if \<not> truthy wxElement then Thrown (Error missing_wx)
     else
       andThen (get_prop wxElement (ascii ''time'')) (\<lambda>t.
       andThen (get_prop t (ascii ''length'')) (\<lambda>timeCount.
       andThen (for_loop (forecast_at weatherElements wxElement) timeCount 0 []) (\<lambda>fs.
       Val (200, SuccessJson
         \<lparr>city = name', updateTime = or_else issue' (Str unknown_issue_time),
          forecasts = fs\<rparr>)))))))"
    unfolding hthen_alloc .
qed

theorem h_try_body_refines:
  assumes "tree_of d h data = Some t"
  shows "hrel (response_rel d) (h_try_body d data h) (try_body t)"
  unfolding h_try_body_def try_body_def
proof (rule hthen_reading_hrel [where R = "denotes d h"])
  show "rel_comp (denotes d h) (h_locate_township h data) (locate_township t)"
    by (rule locate_rel) (simp_all add: denotes_def assms)
next
  fix tcd tcd'
  assume "denotes d h tcd tcd'"
  then show "hrel (response_rel d) (h_normalize_township d data tcd h)
    (normalize_township t tcd')"
    by (intro normalize_rel) (simp_all add: denotes_def assms)
qed

lemma sent_rel:
  "rel_comp (response_rel d h) r p \<Longrightarrow>
     sent d h r =
       map_comp (\<lambda>p. (fst p, case snd p of SuccessJson wd \<Rightarrow> Some (json_of_data wd)
                                | _ \<Rightarrow> None)) p"
  by (cases r; cases p) (auto simp: sent_def response_rel_def split: body.splits)

subsection \<open>The runs on the example heap\<close>

lemma sample_tree:
  "tree_of 11 sample_heap (HRef 10) = Some (document [township taitung_city one_period])"
  by (simp add: sample_heap_def eval_nat_numeral cell_at_def document_def township_def
      one_period_def element_def slot_def)

lemma h_for_loop_step:
  "h_less h i tc = Val True \<Longrightarrow>
   h_for_loop body tc i h = hthen (body i) (\<lambda>_. h_for_loop body tc (Suc i)) h"
  by (subst h_for_loop.simps) simp

lemma h_for_loop_done: "h_less h i tc = Val False \<Longrightarrow> h_for_loop body tc i h = (Val (), h)"
  by (subst h_for_loop.simps) simp

lemmas heap_defs = h_try_body_def h_normalize_township_def h_locate_township_def
  hthen_def reading_def alloc_def h_find_def h_name_is_def h_own_def cell_at_def h_round_def
  h_new_forecast_def h_forEach_def h_process_element_def h_read_value_def h_time_entry_def
  h_assign_field_def h_resolve_rain_def set_prop_def push_def h_add_str_def
  h_for_loop_step h_for_loop_done modelled_number_small less_decimal_0

lemma ascii_Nil_iff [simp]: "ascii s = [] \<longleftrightarrow> s = []"
  by (simp add: ascii_def)

lemma sample_run1: "h_try_body 11 (HRef 10) sample_heap = (Val (200, HRef 12), after_first)"
  by (simp add: sample_heap_def after_first_def first_forecast_def heap_defs)

lemma sample_run2: "h_try_body 11 (HRef 10) after_first = (Val (200, HRef 15), after_second)"
  by (simp add: sample_heap_def after_first_def after_second_def first_forecast_def heap_defs)

section \<open>Properties of the handler\<close>

text \<open>
  C3. When the API key is not configured (the environment variable is unset or empty),
  the request is answered with status 500 and the body \<open>{error, message}\<close> of the
  configuration error, and the world is left as it was: no outbound call is recorded.
\<close>

theorem missing_key_500_no_outbound:
  assumes "CWA_API_KEY = None \<or> CWA_API_KEY = Some []"
  shows "fst (getTaitungWeather CWA_API_KEY w) =
           Responded (500, ErrorJson config_error config_message) \<and>
         outbound (snd (getTaitungWeather CWA_API_KEY w)) = outbound w \<and>
         snd (getTaitungWeather CWA_API_KEY w) = w"
  using assms by (auto simp: getTaitungWeather_def)

theorem missing_key_witness:
  "fst (getTaitungWeather None (serving fallback_document)) =
     Responded (500, ErrorJson config_error config_message) \<and>
   outbound (snd (getTaitungWeather None (serving fallback_document))) = []"
  using missing_key_500_no_outbound [of None "serving fallback_document"]
  by (simp add: serving_def)

text \<open>
  C6. When the weather-element list of the selected township has no element named
  \<open>Wx\<close> (or is no list), the normalization throws, either the \<open>Error\<close> of line 81 or
  a \<open>TypeError\<close>, and the request is answered with status 500 and the generic error
  body: no success response is sent.
\<close>

theorem missing_wx_is_500:
  assumes key: "key \<noteq> []" and up: "upstream w = Fulfilled data"
    and tcd: "locate_township data = Val tcd"
    and nowx: "\<forall>els. get_prop tcd (ascii ''weatherElement'') = Val (Arr els) \<longrightarrow>
       (\<forall>e \<in> set els. name_is (ascii ''elementName'') (ascii ''Wx'') e \<noteq> Val True)"
  shows "(normalize_township data tcd = Thrown (Error missing_wx) \<or>
          normalize_township data tcd = Thrown TypeError) \<and>
         fst (getTaitungWeather (Some key) w) =
           Responded (500, ErrorJson server_error retry_message)"
proof -
  from missing_wx_throws [OF tcd nowx]
  have n: "normalize_township data tcd = Thrown (Error missing_wx) \<or>
           normalize_township data tcd = Thrown TypeError" .
  then have "\<exists>e. try_body data = Thrown e \<and> (e = TypeError \<or> e = Error missing_wx)"
    using tcd by (auto simp: try_body_def)
  then obtain e where e: "try_body data = Thrown e" "e = TypeError \<or> e = Error missing_wx"
    by blast
  from catch_block_500 [OF e(2)] handler_try_body [OF key up] e(1) n show ?thesis by simp
qed

theorem missing_wx_witness:
  "fst (getTaitungWeather (Some api_key) (serving no_wx_document)) =
     Responded (500, ErrorJson server_error retry_message)"
proof -
  let ?tcd = "township taitung_city [element ''T'' [slot ''06:00'' ''12:00'' (Str (ascii ''25''))]]"
  have key: "api_key \<noteq> []" by (simp add: api_key_def ascii_def)
  have up: "upstream (serving no_wx_document) = Fulfilled no_wx_document"
    by (simp add: serving_def)
  have tcd: "locate_township no_wx_document = Val ?tcd"
    by (simp add: no_wx_document_def fixture_defs locate_township_def find_js_def name_is_def
        own_def taitung_city_def)
  have nowx: "\<forall>els. get_prop ?tcd (ascii ''weatherElement'') = Val (Arr els) \<longrightarrow>
       (\<forall>e \<in> set els. name_is (ascii ''elementName'') (ascii ''Wx'') e \<noteq> Val True)"
    by (simp add: fixture_defs name_is_def own_def)
  from missing_wx_is_500 [OF key up tcd nowx] show ?thesis by simp
qed

text \<open>
  The checks of lines 49 and 61. When \<open>records.locations\<close> is there and can be indexed,
  and the first location group is absent (or any other falsy value), or its township list
  \<open>location\<close> is absent (or any other falsy value) or the empty array, the request is
  answered with status 404 and the body \<open>{error, message}\<close>: the message of line 52
  in the first cases, that of line 64 for the empty array.
\<close>

lemma absent_structure_is_404:
  assumes key: "key \<noteq> []" and up: "upstream w = Fulfilled data"
    and recs: "get_prop data (ascii ''records'') = Val recs"
    and locs: "get_prop recs (ascii ''locations'') = Val locs"
    and grp: "get_index locs 0 = Val grp"
    and absent: "\<not> truthy grp \<or>
       (\<exists>l. get_prop grp (ascii ''location'') = Val l \<and> (\<not> truthy l \<or> l = Arr []))"
  shows "fst (getTaitungWeather (Some key) w) =
           Responded (404, ErrorJson no_data
             (if get_prop grp (ascii ''location'') = Val (Arr []) then no_city_message
              else no_county_message))"
proof -
  have "locate_township data = Ret (404, ErrorJson no_data
          (if get_prop grp (ascii ''location'') = Val (Arr []) then no_city_message
           else no_county_message))"
  proof (cases "truthy grp")
    case False
    then have "get_prop grp (ascii ''location'') \<noteq> Val (Arr [])"
      by (cases grp) simp_all
    with False recs locs grp show ?thesis by (simp add: locate_township_def)
  next
    case True
    with absent obtain l where l: "get_prop grp (ascii ''location'') = Val l"
      "\<not> truthy l \<or> l = Arr []" by blast
    from l(2) show ?thesis
    proof
      assume f: "\<not> truthy l"
      then have "l \<noteq> Arr []" by auto
      with f l(1) True recs locs grp show ?thesis by (simp add: locate_township_def)
    next
      assume "l = Arr []"
      with l(1) True recs locs grp show ?thesis
        by (simp add: locate_township_def find_js_def)
    qed
  qed
  then have "try_body data = Ret (404, ErrorJson no_data
          (if get_prop grp (ascii ''location'') = Val (Arr []) then no_city_message
           else no_county_message))"
    by (simp add: try_body_def)
  with handler_try_body [OF key up] show ?thesis by simp
qed

lemma absent_group_is_404:
  "fst (getTaitungWeather (Some api_key) (serving no_group_document)) =
     Responded (404, ErrorJson no_data no_county_message)"
proof -
  have key: "api_key \<noteq> []" by (simp add: api_key_def ascii_def)
  have up: "upstream (serving no_group_document) = Fulfilled no_group_document"
    by (simp add: serving_def)
  have recs: "get_prop no_group_document (ascii ''records'') =
      Val (Obj [(ascii ''locations'', Arr [])])"
    by (simp add: no_group_document_def own_def)
  have locs: "get_prop (Obj [(ascii ''locations'', Arr [])]) (ascii ''locations'') = Val (Arr [])"
    by (simp add: own_def)
  have grp: "get_index (Arr []) 0 = Val Undefined" by simp
  have absent: "\<not> truthy Undefined \<or>
       (\<exists>l. get_prop Undefined (ascii ''location'') = Val l \<and> (\<not> truthy l \<or> l = Arr []))"
    by simp
  from absent_structure_is_404 [OF key up recs locs grp absent] show ?thesis by simp
qed

text \<open>
  C8, at an input on which the code fails. The document \<open>{records: {}}\<close> has no list of
  location groups, so the location group is absent, yet the request is not answered with
  status 404: line 47 reads index 0 of \<open>records.locations\<close>, which is \<open>undefined\<close>, the
  \<open>try\<close> block throws a \<open>TypeError\<close> before the check of line 49 is reached, and the
  request is answered with status 500. That check, \<open>!locationDataContainer\<close>, is the
  code's own answer to an absent location group; it comes one dereference too late.
\<close>

theorem missing_locations_is_500:
  "get_prop no_locations_document (ascii ''records'') = Val (Obj []) \<and>
   get_prop (Obj []) (ascii ''locations'') = Val Undefined \<and>
   try_body no_locations_document = Thrown TypeError \<and>
   fst (getTaitungWeather (Some api_key) (serving no_locations_document)) =
     Responded (500, ErrorJson server_error retry_message)"
  by (simp add: no_locations_document_def fixture_defs handler_defs own_def ascii_def)

text \<open>
  The callback of \<open>find\<close> at line 58 reads \<open>locationName\<close> of every entry up to the
  first match. With \<open>null\<close> before the township of the target city the list has an entry
  of exactly that name, and the township is not selected: the callback throws a
  \<open>TypeError\<close> and the request is answered with status 500.
\<close>

theorem null_before_match_is_500:
  "get_prop (null_first_towns ! 1) (ascii ''locationName'') = Val (Str taitung_city) \<and>
   locate_township (document null_first_towns) = Thrown TypeError \<and>
   fst (getTaitungWeather (Some api_key) (serving (document null_first_towns))) =
     Responded (500, ErrorJson server_error retry_message)"
  by (simp add: null_first_towns_def one_period_def fixture_defs body_defs handler_defs
      taitung_city_def ascii_def)

text \<open>
  C4, as the code has it. When the township list of the first location group has an entry
  whose name is exactly the target city, and no entry before the first such entry is
  \<open>null\<close> (the name of each can be read, and is another), the township selected is that
  first such entry, whatever its place in the list. The rest of the \<open>try\<close> block works
  on that entry, and the \<open>city\<close> of every success response is the target city.
\<close>

theorem exact_match_selected:
  assumes recs: "get_prop data (ascii ''records'') = Val recs"
    and locs: "get_prop recs (ascii ''locations'') = Val locs"
    and grp: "get_index locs 0 = Val grp"
    and towns: "get_prop grp (ascii ''location'') = Val (Arr towns)"
    and j: "j < length towns"
    and match: "get_prop (towns ! j) (ascii ''locationName'') = Val (Str taitung_city)"
    and first: "\<forall>m < j. name_is (ascii ''locationName'') taitung_city (towns ! m) = Val False"
  shows "locate_township data = Val (towns ! j) \<and>
         try_body data = normalize_township data (towns ! j) \<and>
         (\<forall>w key st wd. upstream w = Fulfilled data \<and>
            fst (getTaitungWeather key w) = Responded (st, SuccessJson wd) \<longrightarrow>
            city wd = Str taitung_city)"
proof -
  from match have m: "name_is (ascii ''locationName'') taitung_city (towns ! j) = Val True"
    by (simp add: name_is_True_iff)
  from find_first_match [OF j m first] name_is_True_truthy [OF m]
  have sel: "locate_township data = Val (towns ! j)"
    by (simp add: locate_township_list [OF recs locs grp towns])
  then have "try_body data = normalize_township data (towns ! j)"
    by (simp add: try_body_def)
  moreover have "city wd = Str taitung_city"
    if "upstream w = Fulfilled data"
      "fst (getTaitungWeather key w) = Responded (st, SuccessJson wd)" for w key st wd
    using success_city [OF that sel] match by simp
  ultimately show ?thesis using sel by blast
qed

theorem exact_match_witness:
  "locate_township (document second_place_towns) = Val (township taitung_city one_period) \<and>
   fst (getTaitungWeather (Some api_key) (serving (document second_place_towns))) =
     Responded (200, SuccessJson \<lparr>city = Str taitung_city, updateTime = Str unknown_issue_time,
       forecasts = [\<lparr>startTime = Str (ascii ''06:00''), endTime = Str (ascii ''12:00''),
         weather = Str (ascii ''Cloudy''), rain = Str (ascii ''0%''), minTemp = Str [],
         maxTemp = Str [], comfort = Str [], windSpeed = Str []\<rparr>]\<rparr>)"
proof -
  let ?d = "document second_place_towns"
  have j: "1 < length second_place_towns" by (simp add: second_place_towns_def)
  have match: "get_prop (second_place_towns ! 1) (ascii ''locationName'') = Val (Str taitung_city)"
    by (simp add: second_place_towns_def township_def own_def)
  have first: "\<forall>m < 1. name_is (ascii ''locationName'') taitung_city (second_place_towns ! m) =
      Val False"
    by (simp add: second_place_towns_def township_def own_def name_is_def taitung_city_def
        ascii_def)
  have run: "fst (getTaitungWeather (Some api_key) (serving ?d)) =
     Responded (200, SuccessJson \<lparr>city = Str taitung_city, updateTime = Str unknown_issue_time,
       forecasts = [\<lparr>startTime = Str (ascii ''06:00''), endTime = Str (ascii ''12:00''),
         weather = Str (ascii ''Cloudy''), rain = Str (ascii ''0%''), minTemp = Str [],
         maxTemp = Str [], comfort = Str [], windSpeed = Str []\<rparr>]\<rparr>)"
    by (simp add: second_place_towns_def one_period_def fixture_defs body_defs handler_defs
        taitung_city_def ascii_def)
  from exact_match_selected [OF document_path j match first]
  have "locate_township ?d = Val (second_place_towns ! 1)" by blast
  then have "locate_township ?d = Val (township taitung_city one_period)"
    by (simp add: second_place_towns_def)
  with run show ?thesis by blast
qed

text \<open>
  The fallback of line 59 is reached only when the callback of \<open>find\<close> has read the
  name of every entry, and its result passes the check of line 61. With \<open>null\<close> after a
  township of another name the callback throws and the request is answered with status
  500; with the number 0 as the only entry the first entry is falsy and the request is
  answered with status 404. In both lists no name is the target city and there is a
  first entry.
\<close>

theorem unreadable_or_falsy_entry_no_fallback:
  "locate_township (document null_later_towns) = Thrown TypeError \<and>
   fst (getTaitungWeather (Some api_key) (serving (document null_later_towns))) =
     Responded (500, ErrorJson server_error retry_message) \<and>
   locate_township (document zero_towns) = Ret (404, ErrorJson no_data no_city_message) \<and>
   fst (getTaitungWeather (Some api_key) (serving (document zero_towns))) =
     Responded (404, ErrorJson no_data no_city_message)"
  by (simp add: null_later_towns_def zero_towns_def one_period_def fixture_defs body_defs
      handler_defs taitung_city_def ascii_def rounds_to_zero_def)

text \<open>
  C5, as the code has it. When the township list has a first entry, no entry is \<open>null\<close>
  (the name of each can be read) and none has the name of the target city, and the
  first entry is truthy (a township record is), that first entry is selected: the
  request is not answered by the checks of lines 49 and 61, and the rest of the \<open>try\<close>
  block builds the response from the first entry. In every success response the status
  is 200, \<open>city\<close> is the first entry's name, there is one forecast for each round that
  the \<open>length\<close> of the \<open>time\<close> of its \<open>Wx\<close> element gives, and the forecast at each
  index is the one computed from the first entry's weather elements at that index.
\<close>

theorem first_township_fallback:
  assumes recs: "get_prop data (ascii ''records'') = Val recs"
    and locs: "get_prop recs (ascii ''locations'') = Val locs"
    and grp: "get_index locs 0 = Val grp"
    and towns: "get_prop grp (ascii ''location'') = Val (Arr towns)"
    and nonempty: "towns \<noteq> []"
    and nomatch: "\<forall>t \<in> set towns. name_is (ascii ''locationName'') taitung_city t = Val False"
    and first_truthy: "truthy (towns ! 0)"
  shows "locate_township data = Val (towns ! 0) \<and>
         try_body data = normalize_township data (towns ! 0) \<and>
         (\<forall>r. try_body data \<noteq> Ret r) \<and>
         (\<forall>w key st wd. upstream w = Fulfilled data \<and>
            fst (getTaitungWeather key w) = Responded (st, SuccessJson wd) \<longrightarrow>
            st = 200 \<and> get_prop (towns ! 0) (ascii ''locationName'') = Val (city wd) \<and>
            (\<exists>wes wx t tc.
               get_prop (towns ! 0) (ascii ''weatherElement'') = Val wes \<and>
               find_js wes (name_is (ascii ''elementName'') (ascii ''Wx'')) = Val wx \<and>
               truthy wx \<and> get_prop wx (ascii ''time'') = Val t \<and>
               get_prop t (ascii ''length'') = Val tc \<and>
               length (forecasts wd) = iterations tc \<and>
               (\<forall>k < length (forecasts wd). forecast_at wes wx k = Val (forecasts wd ! k))))"
proof -
  from nonempty have len: "0 < length towns" by simp
  from find_first_none [OF nomatch] first_truthy len
  have sel: "locate_township data = Val (towns ! 0)"
    by (simp add: locate_township_list [OF recs locs grp towns])
  then have body: "try_body data = normalize_township data (towns ! 0)"
    by (simp add: try_body_def)
  then have noret: "\<forall>r. try_body data \<noteq> Ret r" by simp
  have "st = 200 \<and> get_prop (towns ! 0) (ascii ''locationName'') = Val (city wd) \<and>
            (\<exists>wes wx t tc.
               get_prop (towns ! 0) (ascii ''weatherElement'') = Val wes \<and>
               find_js wes (name_is (ascii ''elementName'') (ascii ''Wx'')) = Val wx \<and>
               truthy wx \<and> get_prop wx (ascii ''time'') = Val t \<and>
               get_prop t (ascii ''length'') = Val tc \<and>
               length (forecasts wd) = iterations tc \<and>
               (\<forall>k < length (forecasts wd). forecast_at wes wx k = Val (forecasts wd ! k)))"
    if up: "upstream w = Fulfilled data"
      and ok: "fst (getTaitungWeather key w) = Responded (st, SuccessJson wd)" for w key st wd
  proof -
    from handler_success [OF ok] up have "try_body data = Val (st, SuccessJson wd)" by auto
    with body have "normalize_township data (towns ! 0) = Val (st, SuccessJson wd)" by simp
    then show ?thesis by (rule normalize_township_Val)
  qed
  with sel body noret show ?thesis by blast
qed

theorem first_township_witness:
  "locate_township (document other_towns) = Val (township (ascii ''Chenggong'') one_period) \<and>
   fst (getTaitungWeather (Some api_key) (serving (document other_towns))) =
     Responded (200, SuccessJson \<lparr>city = Str (ascii ''Chenggong''),
       updateTime = Str unknown_issue_time,
       forecasts = [\<lparr>startTime = Str (ascii ''06:00''), endTime = Str (ascii ''12:00''),
         weather = Str (ascii ''Cloudy''), rain = Str (ascii ''0%''), minTemp = Str [],
         maxTemp = Str [], comfort = Str [], windSpeed = Str []\<rparr>]\<rparr>) \<and>
   forecast_at (Arr one_period) (one_period ! 0) 0 =
     Val \<lparr>startTime = Str (ascii ''06:00''), endTime = Str (ascii ''12:00''),
         weather = Str (ascii ''Cloudy''), rain = Str (ascii ''0%''), minTemp = Str [],
         maxTemp = Str [], comfort = Str [], windSpeed = Str []\<rparr>"
proof -
  let ?d = "document other_towns"
  let ?fc = "\<lparr>startTime = Str (ascii ''06:00''), endTime = Str (ascii ''12:00''),
         weather = Str (ascii ''Cloudy''), rain = Str (ascii ''0%''), minTemp = Str [],
         maxTemp = Str [], comfort = Str [], windSpeed = Str []\<rparr>"
  let ?wd = "\<lparr>city = Str (ascii ''Chenggong''), updateTime = Str unknown_issue_time,
       forecasts = [?fc]\<rparr>"
  have nonempty: "other_towns \<noteq> []" by (simp add: other_towns_def)
  have nomatch: "\<forall>t \<in> set other_towns.
      name_is (ascii ''locationName'') taitung_city t = Val False"
    by (simp add: other_towns_def township_def own_def name_is_def taitung_city_def ascii_def)
  have first_truthy: "truthy (other_towns ! 0)" by (simp add: other_towns_def township_def)
  have run: "fst (getTaitungWeather (Some api_key) (serving ?d)) =
     Responded (200, SuccessJson ?wd)"
    by (simp add: other_towns_def one_period_def fixture_defs body_defs handler_defs
        taitung_city_def ascii_def)
  have up: "upstream (serving ?d) = Fulfilled ?d" by (simp add: serving_def)
  from first_township_fallback [OF document_path nonempty nomatch first_truthy]
  have sel: "locate_township ?d = Val (other_towns ! 0)"
    and out: "\<And>w key st wd. upstream w = Fulfilled ?d \<Longrightarrow>
        fst (getTaitungWeather key w) = Responded (st, SuccessJson wd) \<Longrightarrow>
        \<exists>wes wx. get_prop (other_towns ! 0) (ascii ''weatherElement'') = Val wes \<and>
          find_js wes (name_is (ascii ''elementName'') (ascii ''Wx'')) = Val wx \<and>
          (\<forall>k < length (forecasts wd). forecast_at wes wx k = Val (forecasts wd ! k))"
    by blast+
  from sel have first: "locate_township ?d = Val (township (ascii ''Chenggong'') one_period)"
    by (simp add: other_towns_def)
  from out [OF up run] obtain wes wx where
    wes: "get_prop (other_towns ! 0) (ascii ''weatherElement'') = Val wes"
    and wx: "find_js wes (name_is (ascii ''elementName'') (ascii ''Wx'')) = Val wx"
    and fc: "\<forall>k < length (forecasts ?wd). forecast_at wes wx k = Val (forecasts ?wd ! k)"
    by blast
  from wes have "wes = Arr one_period" by (simp add: other_towns_def township_def own_def)
  moreover from this wx have "wx = one_period ! 0"
    by (simp add: one_period_def element_def find_js_def name_is_def own_def)
  ultimately have "forecast_at (Arr one_period) (one_period ! 0) 0 = Val ?fc"
    using fc by simp
  with first run show ?thesis by blast
qed

text \<open>
  C1. In a success response, the \<open>rain\<close> field of the period at index \<open>i\<close> of the
  \<open>Wx\<close> time axis is resolved in two tiers. First tier: when an element named
  \<open>PoP6h\<close> has an \<open>i\<close>-th time entry with a parameter, of value \<open>v\<close> (and no
  \<open>PoP6h\<close> element has another value there), \<open>rain\<close> is the value of \<open>v + "%"\<close>.
  Second tier: when no \<open>PoP6h\<close> element has such an entry, and the first element named
  \<open>PoP12h\<close> has an \<open>i\<close>-th time entry whose parameter has the value \<open>v\<close>, \<open>rain\<close>
  is the value of \<open>v + "%"\<close>. In the scenario of the specification (two periods,
  \<open>PoP6h\<close> = 30 at index 0 only, \<open>PoP12h\<close> = 70 at index 1) this gives \<open>30%\<close> and
  \<open>70%\<close>, for the strings \<open>"30"\<close> and \<open>"70"\<close>; the numbers 30 and 70.5 give \<open>30%\<close>
  and \<open>70.5%\<close>. A value that \<open>+\<close> cannot convert, such as \<open>{toString: 1}\<close>, makes
  the \<open>try\<close> block throw: there is no success response then, but status 500.
\<close>

theorem rain_two_tier:
  assumes up: "upstream w = Fulfilled data"
    and ok: "fst (getTaitungWeather key w) = Responded (st, SuccessJson wd)"
    and tcd: "locate_township data = Val tcd"
    and wes: "get_prop tcd (ascii ''weatherElement'') = Val (Arr els)"
    and i: "i < length (forecasts wd)"
  shows "(\<forall>e v. e \<in> set els \<and>
            get_prop e (ascii ''elementName'') = Val (Str (ascii ''PoP6h'')) \<and>
            read_value i e = Val (Some v) \<and>
            (\<forall>e' \<in> set els. \<forall>u.
               get_prop e' (ascii ''elementName'') = Val (Str (ascii ''PoP6h'')) \<and>
               read_value i e' = Val (Some u) \<longrightarrow> u = v) \<longrightarrow>
            add_str v percent = Val (rain (forecasts wd ! i))) \<and>
         ((\<forall>e \<in> set els. get_prop e (ascii ''elementName'') = Val (Str (ascii ''PoP6h'')) \<longrightarrow>
             read_value i e = Val None) \<longrightarrow>
          (\<forall>p entry parameter v.
             find_js (Arr els) (name_is (ascii ''elementName'') (ascii ''PoP12h'')) = Val p \<and>
             truthy p \<and> time_entry p i = Val entry \<and> truthy entry \<and>
             get_prop entry (ascii ''parameter'') = Val parameter \<and>
             get_prop parameter (ascii ''parameterName'') = Val v \<longrightarrow>
             add_str v percent = Val (rain (forecasts wd ! i))))"
proof -
  from success_forecast [OF up ok tcd wes i] obtain wx fc0 fc1 where
    new: "new_forecast wx i = Val fc0" and
    run: "for_each (process_element i) els fc0 = Val fc1" and
    res: "resolve_rain (Arr els) i fc1 = Val (forecasts wd ! i)" by blast
  have tier1: "add_str v percent = Val (rain (forecasts wd ! i))"
    if e: "e \<in> set els"
      and name: "get_prop e (ascii ''elementName'') = Val (Str (ascii ''PoP6h''))"
      and val: "read_value i e = Val (Some v)"
      and same: "\<forall>e' \<in> set els. \<forall>u.
               get_prop e' (ascii ''elementName'') = Val (Str (ascii ''PoP6h'')) \<and>
               read_value i e' = Val (Some u) \<longrightarrow> u = v" for e v
  proof -
    have r: "add_str v percent = Val (rain fc1)"
      by (rule for_each_last [where Q = "\<lambda>fc. add_str v percent = Val (rain fc)",
            OF run e name val same])
        (auto simp: assign_field_def andThen_Val_iff split: if_splits)
    then have "truthy (rain fc1)" by (rule add_str_truthy)
    from resolve_rain_keeps [OF this] res r show ?thesis by simp
  qed
  have tier2: "add_str v percent = Val (rain (forecasts wd ! i))"
    if none: "\<forall>e \<in> set els. get_prop e (ascii ''elementName'') = Val (Str (ascii ''PoP6h'')) \<longrightarrow>
             read_value i e = Val None"
      and p: "find_js (Arr els) (name_is (ascii ''elementName'') (ascii ''PoP12h'')) = Val p"
        "truthy p"
      and entry: "time_entry p i = Val entry" "truthy entry"
      and v: "get_prop entry (ascii ''parameter'') = Val parameter"
        "get_prop parameter (ascii ''parameterName'') = Val v" for p entry parameter v
  proof -
    have "rain fc1 = Str []"
      by (rule for_each_none [where Q = "\<lambda>fc. rain fc = Str []", OF run none])
        (auto simp: assign_field_def andThen_Val_iff new_forecast_Val [OF new] split: if_splits)
    with p entry v
    have "resolve_rain (Arr els) i fc1 =
        andThen (add_str v percent) (\<lambda>s. Val (fc1\<lparr>rain := s\<rparr>))"
      by (simp add: resolve_rain_def)
    with res obtain s where "add_str v percent = Val s" "forecasts wd ! i = fc1\<lparr>rain := s\<rparr>"
      by (auto simp: andThen_Val_iff)
    then show ?thesis by simp
  qed
  from tier1 tier2 show ?thesis by blast
qed

theorem rain_two_tier_witness:
  "fst (getTaitungWeather (Some api_key) (serving fallback_document)) =
     Responded (200, SuccessJson
       \<lparr>city = Str taitung_city, updateTime = Str unknown_issue_time,
        forecasts = [
          \<lparr>startTime = Str (ascii ''06:00''), endTime = Str (ascii ''12:00''),
           weather = Str (ascii ''Cloudy''), rain = Str (ascii ''30%''), minTemp = Str [],
           maxTemp = Str [], comfort = Str [], windSpeed = Str []\<rparr>,
          \<lparr>startTime = Str (ascii ''12:00''), endTime = Str (ascii ''18:00''),
           weather = Str (ascii ''Rain''), rain = Str (ascii ''70%''), minTemp = Str [],
           maxTemp = Str [], comfort = Str [], windSpeed = Str []\<rparr>]\<rparr>) \<and>
   fst (getTaitungWeather (Some api_key) (serving numeric_rain_document)) =
     Responded (200, SuccessJson
       \<lparr>city = Str taitung_city, updateTime = Str unknown_issue_time,
        forecasts = [
          \<lparr>startTime = Str (ascii ''06:00''), endTime = Str (ascii ''12:00''),
           weather = Str (ascii ''Cloudy''), rain = Str (ascii ''30%''), minTemp = Str [],
           maxTemp = Str [], comfort = Str [], windSpeed = Str []\<rparr>,
          \<lparr>startTime = Str (ascii ''12:00''), endTime = Str (ascii ''18:00''),
           weather = Str (ascii ''Rain''), rain = Str (ascii ''70.5%''), minTemp = Str [],
           maxTemp = Str [], comfort = Str [], windSpeed = Str []\<rparr>]\<rparr>) \<and>
   add_str (Str (ascii ''30'')) percent = Val (Str (ascii ''30%'')) \<and>
   add_str (Num 705 (- 1)) percent = Val (Str (ascii ''70.5%'')) \<and>
   add_str (Obj [(ascii ''toString'', Num 1 0)]) percent = Thrown TypeError \<and>
   fst (getTaitungWeather (Some api_key) (serving unprintable_rain_document)) =
     Responded (500, ErrorJson server_error retry_message)"
proof -
  let ?wd = "\<lparr>city = Str taitung_city, updateTime = Str unknown_issue_time,
    forecasts = [
      \<lparr>startTime = Str (ascii ''06:00''), endTime = Str (ascii ''12:00''),
       weather = Str (ascii ''Cloudy''), rain = Str (ascii ''30%''), minTemp = Str [],
       maxTemp = Str [], comfort = Str [], windSpeed = Str []\<rparr>,
      \<lparr>startTime = Str (ascii ''12:00''), endTime = Str (ascii ''18:00''),
       weather = Str (ascii ''Rain''), rain = Str (ascii ''70%''), minTemp = Str [],
       maxTemp = Str [], comfort = Str [], windSpeed = Str []\<rparr>]\<rparr>"
  let ?nwd = "\<lparr>city = Str taitung_city, updateTime = Str unknown_issue_time,
    forecasts = [
      \<lparr>startTime = Str (ascii ''06:00''), endTime = Str (ascii ''12:00''),
       weather = Str (ascii ''Cloudy''), rain = Str (ascii ''30%''), minTemp = Str [],
       maxTemp = Str [], comfort = Str [], windSpeed = Str []\<rparr>,
      \<lparr>startTime = Str (ascii ''12:00''), endTime = Str (ascii ''18:00''),
       weather = Str (ascii ''Rain''), rain = Str (ascii ''70.5%''), minTemp = Str [],
       maxTemp = Str [], comfort = Str [], windSpeed = Str []\<rparr>]\<rparr>"
  let ?pop6h = "element ''PoP6h'' [slot ''06:00'' ''12:00'' (Str (ascii ''30''))]"
  let ?npop12h = "element ''PoP12h'' [Null, slot ''12:00'' ''18:00'' (Num 705 (- 1))]"
  have run: "fst (getTaitungWeather (Some api_key) (serving fallback_document)) =
     Responded (200, SuccessJson ?wd)"
    by (simp add: fallback_document_def fallback_elements_def fixture_defs body_defs
        handler_defs taitung_city_def ascii_def)
  have nrun: "fst (getTaitungWeather (Some api_key) (serving numeric_rain_document)) =
     Responded (200, SuccessJson ?nwd)"
    by (simp add: numeric_rain_document_def numeric_rain_elements_def fixture_defs body_defs
        handler_defs taitung_city_def number_eval ascii_def)
  have tcd: "locate_township fallback_document = Val (township taitung_city fallback_elements)"
    by (simp add: fallback_document_def locate_single_township)
  have ntcd: "locate_township numeric_rain_document =
      Val (township taitung_city numeric_rain_elements)"
    by (simp add: numeric_rain_document_def locate_single_township)
  have i0: "0 < length (forecasts ?wd)" and i1: "1 < length (forecasts ?nwd)" by simp_all
  note tiers0 = rain_two_tier [OF serving_upstream run tcd township_parts(1) i0]
  note tiers1 = rain_two_tier [OF serving_upstream nrun ntcd township_parts(1) i1]
  have "?pop6h \<in> set fallback_elements \<and>
      get_prop ?pop6h (ascii ''elementName'') = Val (Str (ascii ''PoP6h'')) \<and>
      read_value 0 ?pop6h = Val (Some (Str (ascii ''30''))) \<and>
      (\<forall>e' \<in> set fallback_elements. \<forall>u.
         get_prop e' (ascii ''elementName'') = Val (Str (ascii ''PoP6h'')) \<and>
         read_value 0 e' = Val (Some u) \<longrightarrow> u = Str (ascii ''30''))"
    by (simp add: fallback_elements_def element_eval)
  with tiers0 have "add_str (Str (ascii ''30'')) percent = Val (rain (forecasts ?wd ! 0))"
    by blast
  then have r0: "add_str (Str (ascii ''30'')) percent = Val (Str (ascii ''30%''))" by simp
  have none: "\<forall>e \<in> set numeric_rain_elements.
      get_prop e (ascii ''elementName'') = Val (Str (ascii ''PoP6h'')) \<longrightarrow>
      read_value 1 e = Val None"
    by (simp add: numeric_rain_elements_def element_eval)
  have "find_js (Arr numeric_rain_elements)
        (name_is (ascii ''elementName'') (ascii ''PoP12h'')) = Val ?npop12h \<and>
      truthy ?npop12h \<and>
      time_entry ?npop12h 1 = Val (slot ''12:00'' ''18:00'' (Num 705 (- 1))) \<and>
      truthy (slot ''12:00'' ''18:00'' (Num 705 (- 1))) \<and>
      get_prop (slot ''12:00'' ''18:00'' (Num 705 (- 1))) (ascii ''parameter'') =
        Val (Obj [(ascii ''parameterName'', Num 705 (- 1))]) \<and>
      get_prop (Obj [(ascii ''parameterName'', Num 705 (- 1))]) (ascii ''parameterName'') =
        Val (Num 705 (- 1))"
    by (simp add: numeric_rain_elements_def element_eval)
  with tiers1 none have "add_str (Num 705 (- 1)) percent = Val (rain (forecasts ?nwd ! 1))"
    by blast
  then have r1: "add_str (Num 705 (- 1)) percent = Val (Str (ascii ''70.5%''))" by simp
  have thrown: "add_str (Obj [(ascii ''toString'', Num 1 0)]) percent = Thrown TypeError"
    by (simp add: add_str_def)
  have urun: "fst (getTaitungWeather (Some api_key) (serving unprintable_rain_document)) =
     Responded (500, ErrorJson server_error retry_message)"
    by (simp add: unprintable_rain_document_def fixture_defs body_defs handler_defs
        taitung_city_def ascii_def)
  from run nrun r0 r1 thrown urun show ?thesis by blast
qed

text \<open>
  C7. In a success response, when an element named \<open>T\<close> has an \<open>i\<close>-th time entry
  with a parameter of value \<open>v\<close> (and no \<open>T\<close> element has another value there), both
  \<open>minTemp\<close> and \<open>maxTemp\<close> of the period at index \<open>i\<close> are the value of
  \<open>v + "\<degree>C"\<close>: \<open>v\<close> converted to a string, followed by the degree sign and \<open>C\<close>. For
  the string \<open>"25"\<close> and for the number 25 both are \<open>25\<degree>C\<close>, for the number 25.5
  both are \<open>25.5\<degree>C\<close>. A value that \<open>+\<close> cannot convert, such as
  \<open>{toString: 1}\<close>, makes the \<open>try\<close> block throw: there is no success response
  then, but status 500.
\<close>

theorem temperature_mirrored:
  assumes up: "upstream w = Fulfilled data"
    and ok: "fst (getTaitungWeather key w) = Responded (st, SuccessJson wd)"
    and tcd: "locate_township data = Val tcd"
    and wes: "get_prop tcd (ascii ''weatherElement'') = Val (Arr els)"
    and i: "i < length (forecasts wd)"
    and e: "e \<in> set els"
    and name: "get_prop e (ascii ''elementName'') = Val (Str (ascii ''T''))"
    and val: "read_value i e = Val (Some v)"
    and same: "\<forall>e' \<in> set els. \<forall>u. get_prop e' (ascii ''elementName'') = Val (Str (ascii ''T'')) \<and>
           read_value i e' = Val (Some u) \<longrightarrow> u = v"
  shows "add_str v degrees_celsius = Val (minTemp (forecasts wd ! i)) \<and>
         add_str v degrees_celsius = Val (maxTemp (forecasts wd ! i))"
proof -
  from success_forecast [OF up ok tcd wes i] obtain wx fc0 fc1 where
    run: "for_each (process_element i) els fc0 = Val fc1" and
    res: "resolve_rain (Arr els) i fc1 = Val (forecasts wd ! i)" by blast
  let ?Q = "\<lambda>fc. add_str v degrees_celsius = Val (minTemp fc) \<and>
                add_str v degrees_celsius = Val (maxTemp fc)"
  have q: "?Q fc1"
    by (rule for_each_last [where Q = ?Q, OF run e name val same])
      (auto simp: assign_field_def andThen_Val_iff split: if_splits)
  from resolve_rain_others [OF res]
  have eq: "minTemp (forecasts wd ! i) = minTemp fc1" "maxTemp (forecasts wd ! i) = maxTemp fc1"
    by simp_all
  show ?thesis unfolding eq by (rule q)
qed

theorem temperature_witness:
  "fst (getTaitungWeather (Some api_key) (serving temperature_document)) =
     Responded (200, SuccessJson
       \<lparr>city = Str taitung_city, updateTime = Str unknown_issue_time,
        forecasts = [\<lparr>startTime = Str (ascii ''06:00''), endTime = Str (ascii ''12:00''),
          weather = Str (ascii ''Cloudy''), rain = Str (ascii ''0%''),
          minTemp = Str (ascii ''25'' @ degrees_celsius),
          maxTemp = Str (ascii ''25'' @ degrees_celsius), comfort = Str [],
          windSpeed = Str []\<rparr>]\<rparr>) \<and>
   fst (getTaitungWeather (Some api_key) (serving numeric_temperature_document)) =
     Responded (200, SuccessJson
       \<lparr>city = Str taitung_city, updateTime = Str unknown_issue_time,
        forecasts = [
          \<lparr>startTime = Str (ascii ''06:00''), endTime = Str (ascii ''12:00''),
           weather = Str (ascii ''Cloudy''), rain = Str (ascii ''0%''),
           minTemp = Str (ascii ''25'' @ degrees_celsius),
           maxTemp = Str (ascii ''25'' @ degrees_celsius), comfort = Str [],
           windSpeed = Str []\<rparr>,
          \<lparr>startTime = Str (ascii ''12:00''), endTime = Str (ascii ''18:00''),
           weather = Str (ascii ''Cloudy''), rain = Str (ascii ''0%''),
           minTemp = Str (ascii ''25.5'' @ degrees_celsius),
           maxTemp = Str (ascii ''25.5'' @ degrees_celsius), comfort = Str [],
           windSpeed = Str []\<rparr>,
          \<lparr>startTime = Str (ascii ''18:00''), endTime = Str (ascii ''00:00''),
           weather = Str (ascii ''Clear''), rain = Str (ascii ''0%''),
           minTemp = Str (ascii ''-0.5'' @ degrees_celsius),
           maxTemp = Str (ascii ''-0.5'' @ degrees_celsius), comfort = Str [],
           windSpeed = Str []\<rparr>,
          \<lparr>startTime = Str (ascii ''00:00''), endTime = Str (ascii ''06:00''),
           weather = Str (ascii ''Clear''), rain = Str (ascii ''0%''),
           minTemp = Str (ascii ''25,,true,x'' @ degrees_celsius),
           maxTemp = Str (ascii ''25,,true,x'' @ degrees_celsius), comfort = Str [],
           windSpeed = Str []\<rparr>]\<rparr>) \<and>
   add_str (Str (ascii ''25'')) degrees_celsius = Val (Str (ascii ''25'' @ degrees_celsius)) \<and>
   add_str (Num 255 (- 1)) degrees_celsius = Val (Str (ascii ''25.5'' @ degrees_celsius)) \<and>
   add_str (Obj [(ascii ''toString'', Num 1 0)]) degrees_celsius = Thrown TypeError \<and>
   fst (getTaitungWeather (Some api_key) (serving unprintable_temperature_document)) =
     Responded (500, ErrorJson server_error retry_message)"
proof -
  let ?wd = "\<lparr>city = Str taitung_city, updateTime = Str unknown_issue_time,
       forecasts = [\<lparr>startTime = Str (ascii ''06:00''), endTime = Str (ascii ''12:00''),
         weather = Str (ascii ''Cloudy''), rain = Str (ascii ''0%''),
         minTemp = Str (ascii ''25'' @ degrees_celsius),
         maxTemp = Str (ascii ''25'' @ degrees_celsius), comfort = Str [],
         windSpeed = Str []\<rparr>]\<rparr>"
  let ?nwd = "\<lparr>city = Str taitung_city, updateTime = Str unknown_issue_time,
        forecasts = [
          \<lparr>startTime = Str (ascii ''06:00''), endTime = Str (ascii ''12:00''),
           weather = Str (ascii ''Cloudy''), rain = Str (ascii ''0%''),
           minTemp = Str (ascii ''25'' @ degrees_celsius),
           maxTemp = Str (ascii ''25'' @ degrees_celsius), comfort = Str [],
           windSpeed = Str []\<rparr>,
          \<lparr>startTime = Str (ascii ''12:00''), endTime = Str (ascii ''18:00''),
           weather = Str (ascii ''Cloudy''), rain = Str (ascii ''0%''),
           minTemp = Str (ascii ''25.5'' @ degrees_celsius),
           maxTemp = Str (ascii ''25.5'' @ degrees_celsius), comfort = Str [],
           windSpeed = Str []\<rparr>,
          \<lparr>startTime = Str (ascii ''18:00''), endTime = Str (ascii ''00:00''),
           weather = Str (ascii ''Clear''), rain = Str (ascii ''0%''),
           minTemp = Str (ascii ''-0.5'' @ degrees_celsius),
           maxTemp = Str (ascii ''-0.5'' @ degrees_celsius), comfort = Str [],
           windSpeed = Str []\<rparr>,
          \<lparr>startTime = Str (ascii ''00:00''), endTime = Str (ascii ''06:00''),
           weather = Str (ascii ''Clear''), rain = Str (ascii ''0%''),
           minTemp = Str (ascii ''25,,true,x'' @ degrees_celsius),
           maxTemp = Str (ascii ''25,,true,x'' @ degrees_celsius), comfort = Str [],
           windSpeed = Str []\<rparr>]\<rparr>"
  let ?e = "element ''T'' [slot ''06:00'' ''12:00'' (Str (ascii ''25''))]"
  let ?ne = "element ''T'' [slot ''06:00'' ''12:00'' (Num 25 0),
                     slot ''12:00'' ''18:00'' (Num 255 (- 1)),
                     slot ''18:00'' ''00:00'' (Num (- 5) (- 1)),
                     slot ''00:00'' ''06:00''
                       (Arr [Num 25 0, Null, Arr [Bool True, Str (ascii ''x'')]])]"
  have run: "fst (getTaitungWeather (Some api_key) (serving temperature_document)) =
     Responded (200, SuccessJson ?wd)"
    by (simp add: temperature_document_def temperature_elements_def fixture_defs body_defs
        handler_defs taitung_city_def ascii_def)
  have nrun: "fst (getTaitungWeather (Some api_key) (serving numeric_temperature_document)) =
     Responded (200, SuccessJson ?nwd)"
    by (simp add: numeric_temperature_document_def numeric_temperature_elements_def
        fixture_defs body_defs handler_defs taitung_city_def number_eval ascii_def)
  have tcd: "locate_township temperature_document =
      Val (township taitung_city temperature_elements)"
    by (simp add: temperature_document_def locate_single_township)
  have ntcd: "locate_township numeric_temperature_document =
      Val (township taitung_city numeric_temperature_elements)"
    by (simp add: numeric_temperature_document_def locate_single_township)
  have i: "0 < length (forecasts ?wd)" and ni: "1 < length (forecasts ?nwd)" by simp_all
  have e: "?e \<in> set temperature_elements" by (simp add: temperature_elements_def)
  have name: "get_prop ?e (ascii ''elementName'') = Val (Str (ascii ''T''))"
    by (simp add: element_eval)
  have val: "read_value 0 ?e = Val (Some (Str (ascii ''25'')))"
    by (simp add: element_eval)
  have same: "\<forall>e' \<in> set temperature_elements. \<forall>u.
      get_prop e' (ascii ''elementName'') = Val (Str (ascii ''T'')) \<and>
      read_value 0 e' = Val (Some u) \<longrightarrow> u = Str (ascii ''25'')"
    by (simp add: temperature_elements_def element_eval)
  have ne: "?ne \<in> set numeric_temperature_elements"
    by (simp add: numeric_temperature_elements_def)
  have nname: "get_prop ?ne (ascii ''elementName'') = Val (Str (ascii ''T''))"
    by (simp add: element_eval)
  have nval: "read_value 1 ?ne = Val (Some (Num 255 (- 1)))"
    by (simp add: element_eval)
  have nsame: "\<forall>e' \<in> set numeric_temperature_elements. \<forall>u.
      get_prop e' (ascii ''elementName'') = Val (Str (ascii ''T'')) \<and>
      read_value 1 e' = Val (Some u) \<longrightarrow> u = Num 255 (- 1)"
    by (simp add: numeric_temperature_elements_def element_eval)
  from temperature_mirrored [OF serving_upstream run tcd township_parts(1) i e name val same]
  have r: "add_str (Str (ascii ''25'')) degrees_celsius = Val (Str (ascii ''25'' @ degrees_celsius))"
    by simp
  from temperature_mirrored
    [OF serving_upstream nrun ntcd township_parts(1) ni ne nname nval nsame]
  have nr: "add_str (Num 255 (- 1)) degrees_celsius =
      Val (Str (ascii ''25.5'' @ degrees_celsius))"
    by simp
  have thrown: "add_str (Obj [(ascii ''toString'', Num 1 0)]) degrees_celsius = Thrown TypeError"
    by (simp add: add_str_def)
  have urun: "fst (getTaitungWeather (Some api_key) (serving unprintable_temperature_document)) =
     Responded (500, ErrorJson server_error retry_message)"
    by (simp add: unprintable_temperature_document_def fixture_defs body_defs handler_defs
        taitung_city_def ascii_def)
  from run nrun r nr thrown urun show ?thesis by blast
qed

text \<open>
  C10. In a success response, a field of the period at index \<open>i\<close> keeps the empty
  string of the object literal when no element of its name (\<open>Wx\<close> for \<open>weather\<close>,
  \<open>T\<close> for \<open>minTemp\<close> and \<open>maxTemp\<close>, \<open>CI\<close> for \<open>comfort\<close>, \<open>Ws\<close> for
  \<open>windSpeed\<close>) has an \<open>i\<close>-th time entry with a parameter: the element is absent,
  has no such entry, or the entry has no parameter. The \<open>rain\<close> field is never the
  empty string.
\<close>

theorem empty_string_defaults:
  assumes up: "upstream w = Fulfilled data"
    and ok: "fst (getTaitungWeather key w) = Responded (st, SuccessJson wd)"
    and tcd: "locate_township data = Val tcd"
    and wes: "get_prop tcd (ascii ''weatherElement'') = Val (Arr els)"
    and i: "i < length (forecasts wd)"
  shows "((\<forall>e \<in> set els. get_prop e (ascii ''elementName'') = Val (Str (ascii ''Wx'')) \<longrightarrow>
            read_value i e = Val None) \<longrightarrow> weather (forecasts wd ! i) = Str []) \<and>
         ((\<forall>e \<in> set els. get_prop e (ascii ''elementName'') = Val (Str (ascii ''T'')) \<longrightarrow>
            read_value i e = Val None) \<longrightarrow>
            minTemp (forecasts wd ! i) = Str [] \<and> maxTemp (forecasts wd ! i) = Str []) \<and>
         ((\<forall>e \<in> set els. get_prop e (ascii ''elementName'') = Val (Str (ascii ''CI'')) \<longrightarrow>
            read_value i e = Val None) \<longrightarrow> comfort (forecasts wd ! i) = Str []) \<and>
         ((\<forall>e \<in> set els. get_prop e (ascii ''elementName'') = Val (Str (ascii ''Ws'')) \<longrightarrow>
            read_value i e = Val None) \<longrightarrow> windSpeed (forecasts wd ! i) = Str []) \<and>
         rain (forecasts wd ! i) \<noteq> Str []"
proof -
  from success_forecast [OF up ok tcd wes i] obtain wx fc0 fc1 where
    new: "new_forecast wx i = Val fc0" and
    run: "for_each (process_element i) els fc0 = Val fc1" and
    res: "resolve_rain (Arr els) i fc1 = Val (forecasts wd ! i)" by blast
  note init = new_forecast_Val [OF new]
  note others = resolve_rain_others [OF res]
  have wx: "weather (forecasts wd ! i) = Str []"
    if none: "\<forall>e \<in> set els. get_prop e (ascii ''elementName'') = Val (Str (ascii ''Wx'')) \<longrightarrow>
            read_value i e = Val None"
  proof -
    have "weather fc1 = Str []"
      by (rule for_each_none [where Q = "\<lambda>fc. weather fc = Str []", OF run none])
        (auto simp: assign_field_def andThen_Val_iff init split: if_splits)
    with others show ?thesis by simp
  qed
  have t: "minTemp (forecasts wd ! i) = Str [] \<and> maxTemp (forecasts wd ! i) = Str []"
    if none: "\<forall>e \<in> set els. get_prop e (ascii ''elementName'') = Val (Str (ascii ''T'')) \<longrightarrow>
            read_value i e = Val None"
  proof -
    have "minTemp fc1 = Str [] \<and> maxTemp fc1 = Str []"
      by (rule for_each_none
          [where Q = "\<lambda>fc. minTemp fc = Str [] \<and> maxTemp fc = Str []", OF run none])
        (auto simp: assign_field_def andThen_Val_iff init split: if_splits)
    with others show ?thesis by simp
  qed
  have ci: "comfort (forecasts wd ! i) = Str []"
    if none: "\<forall>e \<in> set els. get_prop e (ascii ''elementName'') = Val (Str (ascii ''CI'')) \<longrightarrow>
            read_value i e = Val None"
  proof -
    have "comfort fc1 = Str []"
      by (rule for_each_none [where Q = "\<lambda>fc. comfort fc = Str []", OF run none])
        (auto simp: assign_field_def andThen_Val_iff init split: if_splits)
    with others show ?thesis by simp
  qed
  have ws: "windSpeed (forecasts wd ! i) = Str []"
    if none: "\<forall>e \<in> set els. get_prop e (ascii ''elementName'') = Val (Str (ascii ''Ws'')) \<longrightarrow>
            read_value i e = Val None"
  proof -
    have "windSpeed fc1 = Str []"
      by (rule for_each_none [where Q = "\<lambda>fc. windSpeed fc = Str []", OF run none])
        (auto simp: assign_field_def andThen_Val_iff init split: if_splits)
    with others show ?thesis by simp
  qed
  from wx t ci ws resolve_rain_nonempty [OF res] show ?thesis by blast
qed

theorem empty_string_witness:
  "\<exists>wd. fst (getTaitungWeather (Some api_key) (serving sparse_document)) =
          Responded (200, SuccessJson wd) \<and>
        weather (forecasts wd ! 0) = Str [] \<and> minTemp (forecasts wd ! 0) = Str [] \<and>
        maxTemp (forecasts wd ! 0) = Str [] \<and> comfort (forecasts wd ! 0) = Str [] \<and>
        windSpeed (forecasts wd ! 0) = Str [] \<and> rain (forecasts wd ! 0) = Str (ascii ''0%'')"
proof -
  let ?wd = "\<lparr>city = Str taitung_city, updateTime = Str unknown_issue_time,
       forecasts = [\<lparr>startTime = Str (ascii ''06:00''), endTime = Str (ascii ''12:00''),
         weather = Str [], rain = Str (ascii ''0%''), minTemp = Str [], maxTemp = Str [],
         comfort = Str [], windSpeed = Str []\<rparr>]\<rparr>"
  have run: "fst (getTaitungWeather (Some api_key) (serving sparse_document)) =
     Responded (200, SuccessJson ?wd)"
    by (simp add: sparse_document_def sparse_elements_def fixture_defs body_defs
        handler_defs taitung_city_def ascii_def)
  have tcd: "locate_township sparse_document = Val (township taitung_city sparse_elements)"
    by (simp add: sparse_document_def locate_single_township)
  have i: "0 < length (forecasts ?wd)" by simp
  have none: "\<forall>e \<in> set sparse_elements. read_value 0 e = Val None"
    by (simp add: sparse_elements_def element_eval)
  from empty_string_defaults [OF serving_upstream run tcd township_parts(1) i] none
  have "weather (forecasts ?wd ! 0) = Str [] \<and> minTemp (forecasts ?wd ! 0) = Str [] \<and>
        maxTemp (forecasts ?wd ! 0) = Str [] \<and> comfort (forecasts ?wd ! 0) = Str [] \<and>
        windSpeed (forecasts ?wd ! 0) = Str []"
    by blast
  with run show ?thesis by auto
qed

text \<open>
  C2, at an input on which the code fails. One period, no \<open>PoP6h\<close> element, and a
  \<open>PoP12h\<close> element whose entry has no \<open>parameter\<close>: neither element yields a value,
  yet \<open>rain\<close> is not defaulted to \<open>0%\<close>. Line 130 reads \<open>parameterName\<close> of
  \<open>undefined\<close>, the \<open>try\<close> block throws a \<open>TypeError\<close> and the request is answered
  with status 500. The callback of \<open>forEach\<close> checks \<open>timeEntry.parameter\<close> (line
  100) before the same read; the fallback does not.
\<close>

theorem bare_pop12h_entry_is_500:
  "try_body bare_pop12h_document = Thrown TypeError \<and>
   fst (getTaitungWeather (Some api_key) (serving bare_pop12h_document)) =
     Responded (500, ErrorJson server_error retry_message)"
  by (simp add: bare_pop12h_document_def fixture_defs body_defs handler_defs
      taitung_city_def ascii_def)

text \<open>
  C9. The normalization does not change its input and gives the same output when it is run
  again. On the heap: when the document at \<open>data\<close> stands for the tree \<open>t\<close>, a run of the
  \<open>try\<close> block changes no cell that existed before it (it only appends cells), so the
  document stands for \<open>t\<close> afterwards; its result is the result of the function
  \<^const>\<open>try_body\<close> on \<open>t\<close> (the same response, exception, or body, which the returned
  reference stands for); and a second run, in the heap the first one left, sends the same
  status and the same body as the first.
\<close>

theorem normalization_on_heap:
  assumes doc: "tree_of d h data = Some t"
    and run1: "h_try_body d data h = (r1, h1)"
    and run2: "h_try_body d data h1 = (r2, h2)"
  shows "length h \<le> length h1 \<and> (\<forall>a < length h. h1 ! a = h ! a) \<and>
         tree_of d h1 data = Some t \<and>
         rel_comp (response_rel d h1) r1 (try_body t) \<and>
         rel_comp (response_rel d h2) r2 (try_body t) \<and>
         sent d h2 r2 = sent d h1 r1"
proof -
  from h_try_body_frame [OF run1]
  have frame: "length h \<le> length h1" "\<forall>a < length h. h1 ! a = h ! a" by simp_all
  from tree_of_extend [OF frame doc] have doc1: "tree_of d h1 data = Some t" .
  from h_try_body_refines [OF doc, of ] run1
  have r1: "rel_comp (response_rel d h1) r1 (try_body t)" by (simp add: hrel_def)
  from h_try_body_refines [OF doc1] run2
  have r2: "rel_comp (response_rel d h2) r2 (try_body t)" by (simp add: hrel_def)
  from sent_rel [OF r1] sent_rel [OF r2] have "sent d h2 r2 = sent d h1 r1" by simp
  with frame doc1 r1 r2 show ?thesis by blast
qed

theorem normalization_on_heap_witness:
  "h_try_body 11 (HRef 10) sample_heap = (Val (200, HRef 12), after_first) \<and>
   h_try_body 11 (HRef 10) after_first = (Val (200, HRef 15), after_second) \<and>
   after_first ! 10 = sample_heap ! 10 \<and>
   tree_of 11 after_first (HRef 10) = Some (document [township taitung_city one_period]) \<and>
   sent 11 after_second (Val (200, HRef 15)) = sent 11 after_first (Val (200, HRef 12))"
proof -
  note facts = normalization_on_heap [OF sample_tree sample_run1 sample_run2]
  from facts have "\<forall>a < length sample_heap. after_first ! a = sample_heap ! a" by blast
  moreover have "(10::nat) < length sample_heap" by (simp add: sample_heap_def)
  ultimately have "after_first ! 10 = sample_heap ! 10" by blast
  with facts sample_run1 sample_run2 show ?thesis by blast
qed

end
